theory Spec2Isabelle
  imports Complex_Main "HOL-Library.Sublist"
begin

section \<open>SlideSage: the inconsistency-detection and reconciliation pipeline\<close>

text \<open>
  A shallow embedding of \<^verbatim>\<open>src/core/detector.py\<close>, of the percentage extraction of
  \<^verbatim>\<open>src/utils/helpers.py\<close>, of the response parsing of \<^verbatim>\<open>src/core/analyzer.py\<close> and of
  the dispatch of \<^verbatim>\<open>src/slide_sage.py\<close>.

  Conventions. A Python \<^verbatim>\<open>str\<close> is a \<open>string\<close> of ASCII characters. A Python \<^verbatim>\<open>dict\<close>
  whose iteration order the code observes is an association list in insertion order (a
  \<^verbatim>\<open>dict\<close> never holds a key twice, so theorems about a dictionary given from outside
  assume \<open>distinct (map fst d)\<close>); a \<^verbatim>\<open>dict\<close> with a fixed set of keys that the code only
  probes is a record with one optional field per key, \<open>None\<close> meaning that the key is
  absent. What the oracle sends is a JSON value, read with Python's dynamic checks: an
  operation on a value of the wrong type raises. The findings of the rule-based scans are
  records, which stand for the dictionaries that the scans build. A leading underscore
  of a Python name is dropped. Logging is left out.
\<close>

subsection \<open>Strings\<close>

text \<open>\<^verbatim>\<open>str.lower()\<close> on ASCII text.\<close>

definition lower_char :: "char \<Rightarrow> char" where
  "lower_char c =
     (case map_of (zip ''ABCDEFGHIJKLMNOPQRSTUVWXYZ'' ''abcdefghijklmnopqrstuvwxyz'') c of
        Some l \<Rightarrow> l
      | None \<Rightarrow> c)"

definition lower :: "string \<Rightarrow> string" where
  "lower s = map lower_char s"

text \<open>\<^verbatim>\<open>w in s\<close> for two strings: \<open>w\<close> occurs in \<open>s\<close> as a contiguous substring.\<close>

fun contains :: "string \<Rightarrow> string \<Rightarrow> bool" where
  "contains w [] = (w = [])"
| "contains w (c # cs) = (prefix w (c # cs) \<or> contains w cs)"

text \<open>\<^verbatim>\<open>' '.join(parts)\<close>.\<close>

fun join_space :: "string list \<Rightarrow> string" where
  "join_space [] = []"
| "join_space [p] = p"
| "join_space (p # q # ps) = p @ '' '' @ join_space (q # ps)"

text \<open>\<^verbatim>\<open>any(word in slide_text for word in words)\<close>.\<close>

definition any_word_in :: "string list \<Rightarrow> string \<Rightarrow> bool" where
  "any_word_in words slide_text = list_ex (\<lambda>word. contains word slide_text) words"

subsection \<open>Dictionaries in insertion order\<close>

text \<open>\<^verbatim>\<open>d[k] = v\<close>: an existing key keeps its position, a new key goes last.\<close>

fun dict_set :: "('k \<times> 'v) list \<Rightarrow> 'k \<Rightarrow> 'v \<Rightarrow> ('k \<times> 'v) list" where
  "dict_set [] k v = [(k, v)]"
| "dict_set ((k', v') # d) k v = (if k' = k then (k, v) # d else (k', v') # dict_set d k v)"

text \<open>\<^verbatim>\<open>d.get(k, [])\<close>.\<close>

definition get_list :: "('k \<times> 'v list) list \<Rightarrow> 'k \<Rightarrow> 'v list" where
  "get_list d k = (case map_of d k of None \<Rightarrow> [] | Some v \<Rightarrow> v)"

text \<open>\<^verbatim>\<open>d[k].append(v)\<close> on a \<^verbatim>\<open>defaultdict(list)\<close>.\<close>

fun dd_append :: "('k \<times> 'v list) list \<Rightarrow> 'k \<Rightarrow> 'v \<Rightarrow> ('k \<times> 'v list) list" where
  "dd_append [] k v = [(k, [v])]"
| "dd_append ((k', vs) # d) k v =
     (if k' = k then (k', vs @ [v]) # d else (k', vs) # dd_append d k v)"

text \<open>\<^verbatim>\<open>d[k] += 1\<close> on a \<^verbatim>\<open>defaultdict(int)\<close>.\<close>

fun dd_incr :: "('k \<times> nat) list \<Rightarrow> 'k \<Rightarrow> ('k \<times> nat) list" where
  "dd_incr [] k = [(k, 1)]"
| "dd_incr ((k', n) # d) k = (if k' = k then (k', n + 1) # d else (k', n) # dd_incr d k)"

text \<open>\<^verbatim>\<open>d[k].extend(vs)\<close> on a dictionary that holds the key.\<close>

fun dict_extend :: "('k \<times> 'v list) list \<Rightarrow> 'k \<Rightarrow> 'v list \<Rightarrow> ('k \<times> 'v list) list" where
  "dict_extend [] k vs = []"
| "dict_extend ((k', v') # d) k vs =
     (if k' = k then (k', v' @ vs) # d else (k', v') # dict_extend d k vs)"

subsection \<open>JSON values and Python's operations on them\<close>

text \<open>
  The exceptions that the code can meet: the one that the parsing handles by name, those
  of a missing key and of an operation on a value of the wrong type, and any other
  subclass of \<^verbatim>\<open>Exception\<close>.
\<close>

datatype py_exception = JSONDecodeError | KeyError | TypeError | AttributeError | OtherException

text \<open>
  A value that \<^verbatim>\<open>json.loads\<close> returns. A number written with a fraction or an exponent
  is a \<open>JFloat\<close> with its value; the values \<^verbatim>\<open>NaN\<close> and \<^verbatim>\<open>Infinity\<close>, which \<^verbatim>\<open>json.loads\<close> also
  accepts, are left out. An object is the list of its members in their order, with no key
  twice.
\<close>

datatype json =
  JNull
| JBool bool
| JInt int
| JFloat rat
| JStr string
| JArr "json list"
| JObj "(string \<times> json) list"

text \<open>\<^verbatim>\<open>if v:\<close>, the truth value of a value.\<close>

fun truthy_json :: "json \<Rightarrow> bool" where
  "truthy_json JNull = False"
| "truthy_json (JBool b) = b"
| "truthy_json (JInt i) = (i \<noteq> 0)"
| "truthy_json (JFloat r) = (r \<noteq> 0)"
| "truthy_json (JStr s) = (s \<noteq> [])"
| "truthy_json (JArr xs) = (xs \<noteq> [])"
| "truthy_json (JObj kvs) = (kvs \<noteq> [])"

text \<open>
  \<^verbatim>\<open>key in v\<close> for a string \<open>key\<close>: a key of a dictionary, an element of a list, a
  substring of a string; on any other value the test raises.
\<close>

fun py_in :: "string \<Rightarrow> json \<Rightarrow> py_exception + bool" where
  "py_in key (JObj kvs) = Inr (key \<in> set (map fst kvs))"
| "py_in key (JArr xs) = Inr (JStr key \<in> set xs)"
| "py_in key (JStr s) = Inr (contains key s)"
| "py_in key v = Inl TypeError"

text \<open>\<^verbatim>\<open>v[key]\<close> for a string \<open>key\<close>.\<close>

fun py_getitem :: "json \<Rightarrow> string \<Rightarrow> py_exception + json" where
  "py_getitem (JObj kvs) key = (case map_of kvs key of None \<Rightarrow> Inl KeyError | Some x \<Rightarrow> Inr x)"
| "py_getitem v key = Inl TypeError"

text \<open>\<^verbatim>\<open>v.get(key, default)\<close>: only a dictionary has the method.\<close>

fun py_get :: "json \<Rightarrow> string \<Rightarrow> json \<Rightarrow> py_exception + json" where
  "py_get (JObj kvs) key default_value =
     Inr (case map_of kvs key of None \<Rightarrow> default_value | Some x \<Rightarrow> x)"
| "py_get v key default_value = Inl AttributeError"

text \<open>
  Whether a value can be a member of a set or a key of a dictionary: lists and
  dictionaries cannot.
\<close>

fun hashable :: "json \<Rightarrow> bool" where
  "hashable (JArr xs) = False"
| "hashable (JObj kvs) = False"
| "hashable v = True"

text \<open>
  \<^verbatim>\<open>a == b\<close> on hashable values: numbers, with \<^verbatim>\<open>True\<close> as 1 and \<^verbatim>\<open>False\<close> as 0, are equal
  when their values are; a string equals the same string only, \<^verbatim>\<open>None\<close> only itself.
\<close>

fun number_of :: "json \<Rightarrow> rat option" where
  "number_of (JBool b) = Some (if b then 1 else 0)"
| "number_of (JInt i) = Some (of_int i)"
| "number_of (JFloat r) = Some r"
| "number_of v = None"

definition py_eq :: "json \<Rightarrow> json \<Rightarrow> bool" where
  "py_eq a b =
     (case (number_of a, number_of b) of
        (Some x, Some y) \<Rightarrow> x = y
      | (None, None) \<Rightarrow> a = b
      | _ \<Rightarrow> False)"

text \<open>The integers of a list whose elements are all integers.\<close>

fun ints_of :: "json list \<Rightarrow> int list option" where
  "ints_of [] = Some []"
| "ints_of (JInt i # xs) = map_option ((#) i) (ints_of xs)"
| "ints_of (v # xs) = None"

text \<open>
  \<^verbatim>\<open>sorted(v)\<close>. A value that is no collection cannot be iterated; a list of integers is
  sorted; what Python's \<^verbatim>\<open>sorted\<close> does with a string, a dictionary or a list that holds
  another element is the parameter \<open>sorted_other\<close>.
\<close>

definition sorted_json ::
  "(json \<Rightarrow> py_exception + json list) \<Rightarrow> json \<Rightarrow> py_exception + json list" where
  "sorted_json sorted_other v =
     (case v of
        JArr xs \<Rightarrow>
          (case ints_of xs of
             Some nums \<Rightarrow> Inr (map JInt (sort nums))
           | None \<Rightarrow> sorted_other v)
      | JStr s \<Rightarrow> sorted_other v
      | JObj kvs \<Rightarrow> sorted_other v
      | _ \<Rightarrow> Inl TypeError)"

subsection \<open>Slide records and findings\<close>

text \<open>
  The keys of a slide's dictionary that the detector reads (\<^verbatim>\<open>extractor.py\<close>,
  \<^verbatim>\<open>_extract_from_slide\<close>), and a finding with the keys that the detector reads or writes.
  The key \<^verbatim>\<open>'text'\<close> is the field \<open>texts\<close>.
\<close>

record slide_data =
  texts :: "string list"
  numbers :: "string list"
  percentages :: "string list"
  currency :: "string list"
  dates :: "string list"

type_synonym slides = "(int \<times> slide_data) list"

record finding =
  slide_numbers :: "int list option"
  description :: "string option"
  severity :: "string option"
  type :: "string option"

type_synonym inconsistencies = "(string \<times> finding list) list"

definition categories :: "string list" where
  "categories =
     [''numerical_conflicts'', ''contradictory_statements'', ''timeline_issues'',
      ''logical_inconsistencies'']"

definition get_empty_inconsistencies :: inconsistencies where
  "get_empty_inconsistencies =
     [(''numerical_conflicts'', []), (''contradictory_statements'', []),
      (''timeline_issues'', []), (''logical_inconsistencies'', [])]"

subsection \<open>The numerical conflict scan\<close>

definition slide_text_of :: "slide_data \<Rightarrow> string" where
  "slide_text_of sd = lower (join_space (texts sd))"

definition revenue_words :: "string list" where
  "revenue_words = [''revenue'', ''sales'', ''income'', ''earnings'']"

definition percentage_words :: "string list" where
  "percentage_words = [''market share'', ''growth'', ''increase'', ''decrease'']"

definition quantity_words :: "string list" where
  "quantity_words = [''employees'', ''customers'', ''users'', ''units'']"

text \<open>
  One of the three inner loops of the first pass: every entry of \<open>values\<close>, in order and
  with its repetitions, appends the slide number under that entry when the slide's text
  holds one of the context words.
\<close>

fun collect_values ::
  "string list \<Rightarrow> string \<Rightarrow> int \<Rightarrow> (string \<times> int list) list \<Rightarrow> string list \<Rightarrow>
   (string \<times> int list) list" where
  "collect_values words slide_text slide_num d [] = d"
| "collect_values words slide_text slide_num d (v # vs) =
     collect_values words slide_text slide_num
       (if any_word_in words slide_text then dd_append d v slide_num else d) vs"

type_synonym numeric_data =
  "(string \<times> int list) list \<times> (string \<times> int list) list \<times> (string \<times> int list) list"

fun collect_slides :: "numeric_data \<Rightarrow> slides \<Rightarrow> numeric_data" where
  "collect_slides data [] = data"
| "collect_slides (revenue_data, percentage_data, quantity_data) ((slide_num, sd) # rest) =
     (let slide_text = slide_text_of sd in
      collect_slides
        (collect_values revenue_words slide_text slide_num revenue_data (currency sd),
         collect_values percentage_words slide_text slide_num percentage_data (percentages sd),
         collect_values quantity_words slide_text slide_num quantity_data (numbers sd))
        rest)"

definition revenue_conflict :: "string \<Rightarrow> int list \<Rightarrow> finding" where
  "revenue_conflict metric slide_nums =
     \<lparr>slide_numbers = Some slide_nums,
      description = Some (''Conflicting revenue figures: '' @ metric @ '' appears on multiple slides''),
      severity = Some ''high'',
      type = Some ''revenue_conflict''\<rparr>"

definition percentage_conflict :: "string \<Rightarrow> int list \<Rightarrow> finding" where
  "percentage_conflict metric slide_nums =
     \<lparr>slide_numbers = Some slide_nums,
      description = Some (''Conflicting percentage data: '' @ metric @ '' appears on multiple slides''),
      severity = Some ''high'',
      type = Some ''percentage_conflict''\<rparr>"

definition quantity_conflict :: "string \<Rightarrow> int list \<Rightarrow> finding" where
  "quantity_conflict metric slide_nums =
     \<lparr>slide_numbers = Some slide_nums,
      description = Some (''Conflicting quantity data: '' @ metric @ '' appears on multiple slides''),
      severity = Some ''medium'',
      type = Some ''quantity_conflict''\<rparr>"

text \<open>One of the three loops of the second pass, appending to \<open>conflicts\<close>.\<close>

fun emit_conflicts ::
  "(string \<Rightarrow> int list \<Rightarrow> finding) \<Rightarrow> finding list \<Rightarrow> (string \<times> int list) list \<Rightarrow>
   finding list" where
  "emit_conflicts mk conflicts [] = conflicts"
| "emit_conflicts mk conflicts ((metric, slide_nums) # rest) =
     emit_conflicts mk
       (if length slide_nums > 1 then conflicts @ [mk metric slide_nums] else conflicts) rest"

definition detect_numerical_conflicts :: "slides \<Rightarrow> finding list" where
  "detect_numerical_conflicts slides_data =
     (case collect_slides ([], [], []) slides_data of
        (revenue_data, percentage_data, quantity_data) \<Rightarrow>
          emit_conflicts quantity_conflict
            (emit_conflicts percentage_conflict
               (emit_conflicts revenue_conflict [] revenue_data) percentage_data)
            quantity_data)"

subsection \<open>The contradictory statement scan\<close>

definition contradiction_patterns :: "(string \<times> string \<times> string) list" where
  "contradiction_patterns =
     [(''highly competitive'', ''few competitors'', ''market competition''),
      (''growing market'', ''declining market'', ''market growth''),
      (''market leader'', ''small player'', ''market position''),
      (''increasing revenue'', ''decreasing revenue'', ''revenue trend''),
      (''profitable'', ''unprofitable'', ''profitability''),
      (''successful'', ''unsuccessful'', ''success''),
      (''strong performance'', ''weak performance'', ''performance''),
      (''cost reduction'', ''heavy investment'', ''strategy''),
      (''focus on efficiency'', ''expand rapidly'', ''approach''),
      (''conservative'', ''aggressive'', ''strategy''),
      (''launch in 2024'', ''launch in 2025'', ''launch timeline''),
      (''phase 1 complete'', ''phase 1 ongoing'', ''project status''),
      (''ahead of schedule'', ''behind schedule'', ''project timeline'')]"

fun collect_text :: "(int \<times> string) list \<Rightarrow> slides \<Rightarrow> (int \<times> string) list" where
  "collect_text all_text [] = all_text"
| "collect_text all_text ((slide_num, sd) # rest) =
     collect_text (dict_set all_text slide_num (slide_text_of sd)) rest"

text \<open>The inner loop over \<open>all_text\<close>, for one pattern pair.\<close>

fun slides_with ::
  "string \<Rightarrow> string \<Rightarrow> int list \<times> int list \<Rightarrow> (int \<times> string) list \<Rightarrow> int list \<times> int list" where
  "slides_with pattern1 pattern2 acc [] = acc"
| "slides_with pattern1 pattern2 (with1, with2) ((slide_num, txt) # rest) =
     slides_with pattern1 pattern2
       (if contains pattern1 txt then with1 @ [slide_num] else with1,
        if contains pattern2 txt then with2 @ [slide_num] else with2)
       rest"

text \<open>The description of a contradiction, an f-string of the source.\<close>

definition contradiction_description :: "string \<Rightarrow> string \<Rightarrow> string \<Rightarrow> string" where
  "contradiction_description pattern1 pattern2 context_label =
     ''Contradictory '' @ context_label @ '': ''
     @ [CHR 0x27] @ pattern1 @ [CHR 0x27] @ '' vs '' @ [CHR 0x27] @ pattern2 @ [CHR 0x27]"

definition contradiction :: "string \<Rightarrow> string \<Rightarrow> string \<Rightarrow> int list \<Rightarrow> finding" where
  "contradiction pattern1 pattern2 context_label slide_nums =
     \<lparr>slide_numbers = Some slide_nums,
      description = Some (contradiction_description pattern1 pattern2 context_label),
      severity = Some ''high'',
      type = Some ''contradictory_statements''\<rparr>"

fun check_patterns ::
  "(int \<times> string) list \<Rightarrow> finding list \<Rightarrow> (string \<times> string \<times> string) list \<Rightarrow> finding list" where
  "check_patterns all_text contradictions [] = contradictions"
| "check_patterns all_text contradictions ((pattern1, pattern2, context_label) # rest) =
     (case slides_with pattern1 pattern2 ([], []) all_text of
        (slides_with_pattern1, slides_with_pattern2) \<Rightarrow>
          check_patterns all_text
            (if slides_with_pattern1 \<noteq> [] \<and> slides_with_pattern2 \<noteq> []
             then contradictions
                  @ [contradiction pattern1 pattern2 context_label
                       (slides_with_pattern1 @ slides_with_pattern2)]
             else contradictions)
            rest)"

definition detect_contradictory_statements :: "slides \<Rightarrow> finding list" where
  "detect_contradictory_statements slides_data =
     check_patterns (collect_text [] slides_data) [] contradiction_patterns"

subsection \<open>The timeline scan\<close>

fun collect_dates :: "(int \<times> string list) list \<Rightarrow> slides \<Rightarrow> (int \<times> string list) list" where
  "collect_dates all_dates [] = all_dates"
| "collect_dates all_dates ((slide_num, sd) # rest) =
     collect_dates (if dates sd \<noteq> [] then dict_set all_dates slide_num (dates sd) else all_dates)
       rest"

definition detect_timeline_issues :: "slides \<Rightarrow> finding list" where
  "detect_timeline_issues slides_data =
     (let all_dates = collect_dates [] slides_data in
      if length all_dates > 1
      then [\<lparr>slide_numbers = Some (map fst all_dates),
             description =
               Some ''Multiple dates found across slides - potential timeline conflicts'',
             severity = Some ''medium'',
             type = Some ''timeline_issues''\<rparr>]
      else [])"

subsection \<open>Rule-based detection\<close>

definition rule_based_detection :: "slides \<Rightarrow> inconsistencies" where
  "rule_based_detection slides_data =
     (let results = get_empty_inconsistencies;
          results = dict_extend results ''numerical_conflicts''
                      (detect_numerical_conflicts slides_data);
          results = dict_extend results ''contradictory_statements''
                      (detect_contradictory_statements slides_data);
          results = dict_extend results ''timeline_issues'' (detect_timeline_issues slides_data)
      in results)"

subsection \<open>Reconciliation of typed findings\<close>

text \<open>
  Reconciliation and summary on findings that are records, as the scans build them:
  slide numbers that are integers, a description and a severity that are strings. The
  same functions on the items as the oracle sends them follow below.
\<close>

text \<open>\<^verbatim>\<open>d.get(key, [])\<close> on an optional field.\<close>

definition get_or_empty :: "'a list option \<Rightarrow> 'a list" where
  "get_or_empty v = (case v of None \<Rightarrow> [] | Some xs \<Rightarrow> xs)"

text \<open>
  The deduplication key: the sorted slide numbers and the first 50 characters of the
  lowercased description, each with the default of \<^verbatim>\<open>item.get\<close>.
\<close>

definition dedup_key :: "finding \<Rightarrow> int list \<times> string" where
  "dedup_key item =
     (let slide_nums = sort (get_or_empty (slide_numbers item));
          description = lower (get_or_empty (description item))
      in (slide_nums, take 50 description))"

fun dedup_loop ::
  "finding list \<Rightarrow> (int list \<times> string) set \<Rightarrow> finding list \<Rightarrow> finding list" where
  "dedup_loop unique_items seen_combinations [] = unique_items"
| "dedup_loop unique_items seen_combinations (item # items) =
     (let key = dedup_key item in
      if key \<notin> seen_combinations
      then dedup_loop (unique_items @ [item]) (insert key seen_combinations) items
      else dedup_loop unique_items seen_combinations items)"

definition deduplicate_items :: "finding list \<Rightarrow> finding list" where
  "deduplicate_items items = dedup_loop [] {} items"

fun combine_loop :: "inconsistencies \<Rightarrow> inconsistencies \<Rightarrow> inconsistencies \<Rightarrow> string list \<Rightarrow>
   inconsistencies" where
  "combine_loop rule_based ai_based combined [] = combined"
| "combine_loop rule_based ai_based combined (category # rest) =
     (let rule_items = get_list rule_based category;
          ai_items = get_list ai_based category;
          all_items = rule_items @ ai_items;
          unique_items = deduplicate_items all_items
      in combine_loop rule_based ai_based (dict_set combined category unique_items) rest)"

definition combine_results :: "inconsistencies \<Rightarrow> inconsistencies \<Rightarrow> inconsistencies" where
  "combine_results rule_based ai_based = combine_loop rule_based ai_based [] categories"

subsection \<open>Summary\<close>

text \<open>The summary; \<open>'k\<close> is the type of the severity labels.\<close>

record 'k summary =
  total_slides :: nat
  slides_analyzed :: nat
  inconsistencies_found :: nat
  severity_breakdown :: "('k \<times> nat) list"
  category_breakdown :: "(string \<times> nat) list"

text \<open>\<^verbatim>\<open>item.get('severity', 'unknown')\<close>.\<close>

definition severity_of :: "finding \<Rightarrow> string" where
  "severity_of item = (case severity item of None \<Rightarrow> ''unknown'' | Some s \<Rightarrow> s)"

fun count_items :: "(string \<times> nat) list \<Rightarrow> finding list \<Rightarrow> (string \<times> nat) list" where
  "count_items severity_counts [] = severity_counts"
| "count_items severity_counts (item # items) =
     count_items (dd_incr severity_counts (severity_of item)) items"

fun count_severities :: "(string \<times> nat) list \<Rightarrow> inconsistencies \<Rightarrow> (string \<times> nat) list" where
  "count_severities severity_counts [] = severity_counts"
| "count_severities severity_counts ((category, category_items) # rest) =
     count_severities (count_items severity_counts category_items) rest"

definition calculate_summary :: "inconsistencies \<Rightarrow> slides \<Rightarrow> string summary" where
  "calculate_summary inconsistencies slides_data =
     (let total_inconsistencies = sum_list (map (\<lambda>(category, items). length items) inconsistencies);
          severity_counts = count_severities [] inconsistencies;
          category_counts = map (\<lambda>(category, items). (category, length items)) inconsistencies
      in \<lparr>total_slides = length slides_data,
          slides_analyzed = length slides_data,
          inconsistencies_found = total_inconsistencies,
          severity_breakdown = severity_counts,
          category_breakdown = category_counts\<rparr>)"

definition flatten_inconsistencies :: "(string \<times> 'a list) list \<Rightarrow> 'a list" where
  "flatten_inconsistencies inconsistencies = concat (map snd inconsistencies)"

subsection \<open>The findings as the oracle sends them\<close>

text \<open>
  The dictionary for which a finding record stands: the keys that are present, in the
  order in which the scans write them.
\<close>

definition finding_json :: "finding \<Rightarrow> json" where
  "finding_json f =
     JObj ((case slide_numbers f of None \<Rightarrow> [] | Some nums \<Rightarrow> [(''slide_numbers'', JArr (map JInt nums))])
           @ (case description f of None \<Rightarrow> [] | Some d \<Rightarrow> [(''description'', JStr d)])
           @ (case severity f of None \<Rightarrow> [] | Some s \<Rightarrow> [(''severity'', JStr s)])
           @ (case type f of None \<Rightarrow> [] | Some t \<Rightarrow> [(''type'', JStr t)]))"

definition inconsistencies_json :: "inconsistencies \<Rightarrow> (string \<times> json) list" where
  "inconsistencies_json d = map (\<lambda>(category, items). (category, JArr (map finding_json items))) d"

text \<open>
  The dictionary that \<^verbatim>\<open>analyze_inconsistencies\<close> returns, without its time stamp, which
  nothing reads. The keys \<^verbatim>\<open>'error'\<close>, \<^verbatim>\<open>'inconsistencies'\<close>, \<^verbatim>\<open>'intelligence_report'\<close>,
  \<^verbatim>\<open>'analysis_type'\<close> and \<^verbatim>\<open>'slides_analyzed'\<close> are the fields below; the values of the
  second and the third are what the parsing returned.
\<close>

record ai_analysis =
  ai_error :: "string option"
  ai_inconsistencies :: "json option"
  ai_intelligence_report :: "json option"
  ai_analysis_type :: "string option"
  ai_slides_analyzed :: "nat option"

text \<open>The empty dictionary \<^verbatim>\<open>{}\<close> that \<^verbatim>\<open>main\<close> passes after an AI error.\<close>

definition empty_ai_analysis :: ai_analysis where
  "empty_ai_analysis =
     \<lparr>ai_error = None, ai_inconsistencies = None, ai_intelligence_report = None,
      ai_analysis_type = None, ai_slides_analyzed = None\<rparr>"

text \<open>
  \<^verbatim>\<open>_extract_ai_results\<close>: the four \<^verbatim>\<open>.get\<close> calls raise when the value under
  \<^verbatim>\<open>'inconsistencies'\<close> is no dictionary; what they return is whatever stands under the
  category keys.
\<close>

definition extract_ai_results :: "ai_analysis \<Rightarrow> py_exception + (string \<times> json) list" where
  "extract_ai_results ai =
     (if ai_error ai \<noteq> None then Inr (inconsistencies_json get_empty_inconsistencies)
      else
        let inconsistencies = (case ai_inconsistencies ai of None \<Rightarrow> JObj [] | Some d \<Rightarrow> d) in
        case py_get inconsistencies ''numerical_conflicts'' (JArr []) of
          Inl e \<Rightarrow> Inl e
        | Inr nc \<Rightarrow>
        case py_get inconsistencies ''contradictory_statements'' (JArr []) of
          Inl e \<Rightarrow> Inl e
        | Inr cs \<Rightarrow>
        case py_get inconsistencies ''timeline_issues'' (JArr []) of
          Inl e \<Rightarrow> Inl e
        | Inr ti \<Rightarrow>
        case py_get inconsistencies ''logical_inconsistencies'' (JArr []) of
          Inl e \<Rightarrow> Inl e
        | Inr li \<Rightarrow>
            Inr [(''numerical_conflicts'', nc), (''contradictory_statements'', cs),
                 (''timeline_issues'', ti), (''logical_inconsistencies'', li)])"

subsection \<open>Reconciliation and summary of the items as they come\<close>

text \<open>
  The key of an item in \<^verbatim>\<open>_deduplicate_items\<close>, with every check that Python makes on the
  way: \<^verbatim>\<open>item.get\<close> needs a dictionary, \<^verbatim>\<open>sorted\<close> a collection, \<^verbatim>\<open>.lower()\<close> a string.
\<close>

type_synonym item_key = "json list \<times> string"

definition item_key ::
  "(json \<Rightarrow> py_exception + json list) \<Rightarrow> json \<Rightarrow> py_exception + item_key" where
  "item_key sorted_other item =
     (case py_get item ''slide_numbers'' (JArr []) of
        Inl e \<Rightarrow> Inl e
      | Inr v \<Rightarrow>
      case sorted_json sorted_other v of
        Inl e \<Rightarrow> Inl e
      | Inr slide_nums \<Rightarrow>
      case py_get item ''description'' (JStr []) of
        Inl e \<Rightarrow> Inl e
      | Inr d \<Rightarrow>
          (case d of
             JStr s \<Rightarrow> Inr (slide_nums, take 50 (lower s))
           | _ \<Rightarrow> Inl AttributeError))"

text \<open>
  Two keys are the same member of \<^verbatim>\<open>seen_combinations\<close> when their tuples have equal
  elements and their strings are equal.
\<close>

definition key_eq :: "item_key \<Rightarrow> item_key \<Rightarrow> bool" where
  "key_eq k k' \<longleftrightarrow> list_all2 py_eq (fst k) (fst k') \<and> snd k = snd k'"

text \<open>
  The loop of \<^verbatim>\<open>_deduplicate_items\<close>. The membership test hashes the key, which raises
  when the tuple holds a list or a dictionary.
\<close>

fun dedup_loop_json ::
  "(json \<Rightarrow> py_exception + json list) \<Rightarrow> json list \<Rightarrow> item_key list \<Rightarrow> json list \<Rightarrow>
   py_exception + json list" where
  "dedup_loop_json sorted_other unique_items seen_combinations [] = Inr unique_items"
| "dedup_loop_json sorted_other unique_items seen_combinations (item # items) =
     (case item_key sorted_other item of
        Inl e \<Rightarrow> Inl e
      | Inr key \<Rightarrow>
          if \<not> list_all hashable (fst key) then Inl TypeError
          else if \<not> list_ex (key_eq key) seen_combinations
          then dedup_loop_json sorted_other (unique_items @ [item]) (seen_combinations @ [key]) items
          else dedup_loop_json sorted_other unique_items seen_combinations items)"

definition deduplicate_items_json ::
  "(json \<Rightarrow> py_exception + json list) \<Rightarrow> json list \<Rightarrow> py_exception + json list" where
  "deduplicate_items_json sorted_other items = dedup_loop_json sorted_other [] [] items"

text \<open>
  \<^verbatim>\<open>_combine_results\<close> on the rule-based findings and on what \<^verbatim>\<open>_extract_ai_results\<close>
  returned: \<^verbatim>\<open>rule_items + ai_items\<close> raises unless \<^verbatim>\<open>ai_items\<close> is a list.
\<close>

fun combine_loop_json ::
  "(json \<Rightarrow> py_exception + json list) \<Rightarrow> inconsistencies \<Rightarrow> (string \<times> json) list \<Rightarrow>
   (string \<times> json list) list \<Rightarrow> string list \<Rightarrow> py_exception + (string \<times> json list) list" where
  "combine_loop_json sorted_other rule_based ai_based combined [] = Inr combined"
| "combine_loop_json sorted_other rule_based ai_based combined (category # rest) =
     (let rule_items = map finding_json (get_list rule_based category);
          ai_items = (case map_of ai_based category of None \<Rightarrow> JArr [] | Some v \<Rightarrow> v)
      in case ai_items of
           JArr xs \<Rightarrow>
             (case deduplicate_items_json sorted_other (rule_items @ xs) of
                Inl e \<Rightarrow> Inl e
              | Inr unique_items \<Rightarrow>
                  combine_loop_json sorted_other rule_based ai_based
                    (dict_set combined category unique_items) rest)
         | _ \<Rightarrow> Inl TypeError)"

definition combine_results_json ::
  "(json \<Rightarrow> py_exception + json list) \<Rightarrow> inconsistencies \<Rightarrow> (string \<times> json) list \<Rightarrow>
   py_exception + (string \<times> json list) list" where
  "combine_results_json sorted_other rule_based ai_based =
     combine_loop_json sorted_other rule_based ai_based [] categories"

text \<open>
  \<^verbatim>\<open>severity_counts[severity] += 1\<close>: the label is counted under the first key that
  equals it.
\<close>

fun dd_incr_json :: "(json \<times> nat) list \<Rightarrow> json \<Rightarrow> (json \<times> nat) list" where
  "dd_incr_json [] k = [(k, 1)]"
| "dd_incr_json ((k', n) # d) k =
     (if py_eq k' k then (k', n + 1) # d else (k', n) # dd_incr_json d k)"

fun count_items_json ::
  "(json \<times> nat) list \<Rightarrow> json list \<Rightarrow> py_exception + (json \<times> nat) list" where
  "count_items_json severity_counts [] = Inr severity_counts"
| "count_items_json severity_counts (item # items) =
     (case py_get item ''severity'' (JStr ''unknown'') of
        Inl e \<Rightarrow> Inl e
      | Inr severity_label \<Rightarrow>
          if \<not> hashable severity_label then Inl TypeError
          else count_items_json (dd_incr_json severity_counts severity_label) items)"

fun count_severities_json ::
  "(json \<times> nat) list \<Rightarrow> (string \<times> json list) list \<Rightarrow> py_exception + (json \<times> nat) list" where
  "count_severities_json severity_counts [] = Inr severity_counts"
| "count_severities_json severity_counts ((category, category_items) # rest) =
     (case count_items_json severity_counts category_items of
        Inl e \<Rightarrow> Inl e
      | Inr severity_counts' \<Rightarrow> count_severities_json severity_counts' rest)"

definition calculate_summary_json ::
  "(string \<times> json list) list \<Rightarrow> slides \<Rightarrow> py_exception + json summary" where
  "calculate_summary_json inconsistencies slides_data =
     (let total_inconsistencies = sum_list (map (\<lambda>(category, items). length items) inconsistencies)
      in case count_severities_json [] inconsistencies of
           Inl e \<Rightarrow> Inl e
         | Inr severity_counts \<Rightarrow>
             let category_counts = map (\<lambda>(category, items). (category, length items)) inconsistencies
             in Inr \<lparr>total_slides = length slides_data,
                     slides_analyzed = length slides_data,
                     inconsistencies_found = total_inconsistencies,
                     severity_breakdown = severity_counts,
                     category_breakdown = category_counts\<rparr>)"

text \<open>
  \<^verbatim>\<open>_flatten_inconsistencies\<close> on what \<^verbatim>\<open>_extract_ai_results\<close> returned:
  \<^verbatim>\<open>flattened.extend(v)\<close> takes the elements of a list, the characters of a string, the
  keys of a dictionary, and raises on any other value.
\<close>

fun flatten_json :: "json list \<Rightarrow> (string \<times> json) list \<Rightarrow> py_exception + json list" where
  "flatten_json flattened [] = Inr flattened"
| "flatten_json flattened ((category, category_items) # rest) =
     (case category_items of
        JArr xs \<Rightarrow> flatten_json (flattened @ xs) rest
      | JStr s \<Rightarrow> flatten_json (flattened @ map (\<lambda>c. JStr [c]) s) rest
      | JObj kvs \<Rightarrow> flatten_json (flattened @ map (\<lambda>(k, v). JStr k) kvs) rest
      | _ \<Rightarrow> Inl TypeError)"

subsection \<open>The detection run\<close>

record detection_result =
  summary :: "json summary"
  inconsistencies :: "(string \<times> json list) list"
  rule_based_count :: nat
  ai_based_count :: nat

definition detect_inconsistencies ::
  "(json \<Rightarrow> py_exception + json list) \<Rightarrow> slides \<Rightarrow> ai_analysis \<Rightarrow>
   py_exception + detection_result" where
  "detect_inconsistencies sorted_other slides_data ai =
     (let rule_based_results = rule_based_detection slides_data in
      case extract_ai_results ai of
        Inl e \<Rightarrow> Inl e
      | Inr ai_results \<Rightarrow>
      case combine_results_json sorted_other rule_based_results ai_results of
        Inl e \<Rightarrow> Inl e
      | Inr combined_results \<Rightarrow>
      case calculate_summary_json combined_results slides_data of
        Inl e \<Rightarrow> Inl e
      | Inr summary_statistics \<Rightarrow>
      case flatten_json [] ai_results of
        Inl e \<Rightarrow> Inl e
      | Inr ai_flattened \<Rightarrow>
          Inr \<lparr>summary = summary_statistics,
               inconsistencies = combined_results,
               rule_based_count = length (flatten_inconsistencies rule_based_results),
               ai_based_count = length ai_flattened\<rparr>)"

subsection \<open>Parsing the oracle's response\<close>

text \<open>
  The library functions behind the parsing strategies, as parameters: \<^verbatim>\<open>json.loads\<close>
  (which raises or returns), the two \<^verbatim>\<open>re.findall\<close> calls of strategies 2 and 3, and
  the chain of \<^verbatim>\<open>re.sub\<close> calls that is \<^verbatim>\<open>_fix_common_json_issues\<close>.
\<close>

record json_lib =
  json_loads :: "string \<Rightarrow> py_exception + json"
  findall_fenced :: "string \<Rightarrow> string list"
  findall_objects :: "string \<Rightarrow> string list"
  fix_common_json_issues :: "string \<Rightarrow> string"

text \<open>The characters that \<^verbatim>\<open>str.strip()\<close> and the pattern \<^verbatim>\<open>\s\<close> take for white space.\<close>

definition is_space :: "char \<Rightarrow> bool" where
  "is_space c \<longleftrightarrow>
     c \<in> set [CHR 0x09, CHR 0x0A, CHR 0x0B, CHR 0x0C, CHR 0x0D,
               CHR 0x1C, CHR 0x1D, CHR 0x1E, CHR 0x1F, CHR 0x20]"

definition strip :: "string \<Rightarrow> string" where
  "strip s = rev (dropWhile is_space (rev (dropWhile is_space s)))"

definition fence :: string where
  "fence = [CHR 0x60, CHR 0x60, CHR 0x60]"

text \<open>
  \<^verbatim>\<open>try: return json.loads(s)  except json.JSONDecodeError: <rest>\<close>: any other
  exception leaves the function.
\<close>

definition try_loads ::
  "json_lib \<Rightarrow> string \<Rightarrow> (py_exception + json option) \<Rightarrow> py_exception + json option" where
  "try_loads lib s rest =
     (case json_loads lib s of
        Inr v \<Rightarrow> Inr (Some v)
      | Inl JSONDecodeError \<Rightarrow> rest
      | Inl e \<Rightarrow> Inl e)"

text \<open>The loop of strategy 3 over the matches, followed by \<open>rest\<close>.\<close>

fun try_matches ::
  "json_lib \<Rightarrow> string list \<Rightarrow> (py_exception + json option) \<Rightarrow> py_exception + json option" where
  "try_matches lib [] rest = rest"
| "try_matches lib (m # ms) rest = try_loads lib m (try_matches lib ms rest)"

definition clean_fences :: "string \<Rightarrow> string" where
  "clean_fences txt =
     (let cleaned_text = strip txt;
          cleaned_text = (if prefix fence cleaned_text then drop 3 cleaned_text else cleaned_text);
          cleaned_text = (if suffix fence cleaned_text
                          then take (length cleaned_text - 3) cleaned_text else cleaned_text)
      in strip cleaned_text)"

definition robust_json_parse :: "json_lib \<Rightarrow> string \<Rightarrow> py_exception + json option" where
  "robust_json_parse lib txt =
     try_loads lib txt
       (let strategy3 =
              try_matches lib (findall_objects lib txt)
                (try_loads lib (clean_fences txt)
                   (try_loads lib (fix_common_json_issues lib txt) (Inr None)))
        in case findall_fenced lib txt of
             [] \<Rightarrow> strategy3
           | m # ms \<Rightarrow> try_loads lib m strategy3)"

definition get_empty_intelligence_report :: json where
  "get_empty_intelligence_report =
     JObj
       [(''executive_summary'', JObj
          [(''overall_risk_level'', JStr ''low''),
           (''data_integrity_score'', JStr ''8/10''),
           (''strategic_coherence_score'', JStr ''8/10''),
           (''stakeholder_confidence_impact'', JStr ''low''),
           (''critical_findings_count'', JInt 0),
           (''business_impact_assessment'', JStr ''No significant issues detected'')]),
        (''detailed_analysis'', JArr []),
        (''strategic_recommendations'', JArr []),
        (''data_quality_assessment'', JObj
          [(''reliability_score'', JStr ''8/10''),
           (''consistency_score'', JStr ''8/10''),
           (''completeness_score'', JStr ''8/10''),
           (''accuracy_indicators'', JArr []),
           (''data_gaps'', JArr []),
           (''verification_needs'', JArr [])]),
        (''stakeholder_impact_analysis'', JObj
          [(''investor_confidence'', JStr ''high''),
           (''employee_trust'', JStr ''high''),
           (''customer_perception'', JStr ''high''),
           (''regulatory_risk'', JStr ''low'')])]"

definition extract_intelligence_from_text :: "string \<Rightarrow> json" where
  "extract_intelligence_from_text txt = get_empty_intelligence_report"

text \<open>
  A candidate of the response whose \<^verbatim>\<open>['content']['parts'][0]['text']\<close> is a string, or
  one where that path raises. \<open>candidates = None\<close>: the response has no such key.
\<close>

datatype candidate = WellFormed string | Malformed

record response =
  candidates :: "candidate list option"

text \<open>\<^verbatim>\<open>if parsed_data:\<close> on the result of \<^verbatim>\<open>_robust_json_parse\<close>.\<close>

fun truthy :: "json option \<Rightarrow> bool" where
  "truthy None = False"
| "truthy (Some v) = truthy_json v"

text \<open>
  What the code does with a true \<^verbatim>\<open>parsed_data\<close>: the value under
  \<^verbatim>\<open>'intelligence_report'\<close>, whatever it is, or a dictionary of the four category keys
  with whatever stands under them. On a value that is no dictionary the membership test,
  the subscript or \<^verbatim>\<open>.get\<close> raises.
\<close>

definition read_parsed :: "json \<Rightarrow> py_exception + json" where
  "read_parsed parsed_data =
     (case py_in ''intelligence_report'' parsed_data of
        Inl e \<Rightarrow> Inl e
      | Inr present \<Rightarrow>
          if present then py_getitem parsed_data ''intelligence_report''
          else
            case py_get parsed_data ''numerical_conflicts'' (JArr []) of
              Inl e \<Rightarrow> Inl e
            | Inr nc \<Rightarrow>
            case py_get parsed_data ''contradictory_statements'' (JArr []) of
              Inl e \<Rightarrow> Inl e
            | Inr cs \<Rightarrow>
            case py_get parsed_data ''timeline_issues'' (JArr []) of
              Inl e \<Rightarrow> Inl e
            | Inr ti \<Rightarrow>
            case py_get parsed_data ''logical_inconsistencies'' (JArr []) of
              Inl e \<Rightarrow> Inl e
            | Inr li \<Rightarrow>
                Inr (JObj [(''numerical_conflicts'', nc), (''contradictory_statements'', cs),
                           (''timeline_issues'', ti), (''logical_inconsistencies'', li)]))"

text \<open>The body of the \<^verbatim>\<open>try\<close> of \<^verbatim>\<open>_parse_analysis_response\<close>.\<close>

definition parse_body :: "json_lib \<Rightarrow> response \<Rightarrow> py_exception + json" where
  "parse_body lib resp =
     (case candidates resp of
        Some (c # cs) \<Rightarrow>
          (case c of
             Malformed \<Rightarrow> Inl OtherException
           | WellFormed txt \<Rightarrow>
               (case robust_json_parse lib txt of
                  Inl e \<Rightarrow> Inl e
                | Inr parsed_data \<Rightarrow>
                    if truthy parsed_data
                    then (case parsed_data of
                            Some v \<Rightarrow> read_parsed v
                          | None \<Rightarrow> Inl OtherException)
                    else Inr (extract_intelligence_from_text txt)))
      | _ \<Rightarrow> Inr get_empty_intelligence_report)"

text \<open>The whole function: \<^verbatim>\<open>except Exception\<close> turns every exception into the empty report.\<close>

definition parse_analysis_response :: "json_lib \<Rightarrow> response \<Rightarrow> json" where
  "parse_analysis_response lib resp =
     (case parse_body lib resp of
        Inl e \<Rightarrow> get_empty_intelligence_report
      | Inr report \<Rightarrow> report)"

subsection \<open>The AI adapter and the main program\<close>

text \<open>
  \<open>api_key\<close> is \<^verbatim>\<open>self.api_key\<close>; \<open>api_result\<close> is what \<^verbatim>\<open>_call_gemini_api\<close> does: it
  raises (\<open>Inl\<close> the message of the exception) or returns the response.
\<close>

definition error_result :: "string \<Rightarrow> ai_analysis" where
  "error_result msg = empty_ai_analysis\<lparr>ai_error := Some msg\<rparr>"

text \<open>
  \<^verbatim>\<open>isinstance(intelligence_report, dict) and 'executive_summary' in intelligence_report\<close>.
\<close>

definition is_intelligence :: "json \<Rightarrow> bool" where
  "is_intelligence report =
     (case report of JObj kvs \<Rightarrow> ''executive_summary'' \<in> set (map fst kvs) | _ \<Rightarrow> False)"

definition analyze_inconsistencies ::
  "string option \<Rightarrow> json_lib \<Rightarrow> string + response \<Rightarrow> slides \<Rightarrow> ai_analysis" where
  "analyze_inconsistencies api_key lib api_result slides_data =
     (if api_key = None \<or> api_key = Some [] then error_result ''No API key available''
      else
        case api_result of
          Inl msg \<Rightarrow> error_result msg
        | Inr resp \<Rightarrow>
            let intelligence_report = parse_analysis_response lib resp in
            if is_intelligence intelligence_report
            then empty_ai_analysis
                   \<lparr>ai_intelligence_report := Some intelligence_report,
                    ai_slides_analyzed := Some (length slides_data),
                    ai_analysis_type := Some ''intelligence''\<rparr>
            else empty_ai_analysis
                   \<lparr>ai_inconsistencies := Some intelligence_report,
                    ai_slides_analyzed := Some (length slides_data),
                    ai_analysis_type := Some ''legacy''\<rparr>)"

datatype run_output = DetectionResult detection_result | IntelligenceReport json

text \<open>
  Lines 161 to 174 of \<^verbatim>\<open>main\<close>: the value bound to \<^verbatim>\<open>results\<close>, or the exception that
  leaves the block.
\<close>

definition main_results ::
  "(json \<Rightarrow> py_exception + json list) \<Rightarrow> slides \<Rightarrow> ai_analysis \<Rightarrow> py_exception + run_output" where
  "main_results sorted_other slides_data ai =
     (if ai_error ai \<noteq> None
      then (case detect_inconsistencies sorted_other slides_data empty_ai_analysis of
              Inl e \<Rightarrow> Inl e
            | Inr results \<Rightarrow> Inr (DetectionResult results))
      else if ai_analysis_type ai = Some ''intelligence''
      then (case ai_intelligence_report ai of
              None \<Rightarrow> Inl KeyError
            | Some report \<Rightarrow> Inr (IntelligenceReport report))
      else (case detect_inconsistencies sorted_other slides_data ai of
              Inl e \<Rightarrow> Inl e
            | Inr results \<Rightarrow> Inr (DetectionResult results)))"

text \<open>Lines 157 to 174: the AI analysis followed by the dispatch.\<close>

definition analysis_run ::
  "string option \<Rightarrow> (json \<Rightarrow> py_exception + json list) \<Rightarrow> json_lib \<Rightarrow> string + response \<Rightarrow>
   slides \<Rightarrow> py_exception + run_output" where
  "analysis_run api_key sorted_other lib api_result slides_data =
     main_results sorted_other slides_data
       (analyze_inconsistencies api_key lib api_result slides_data)"

text \<open>
  \<^verbatim>\<open>main\<close> from line 110 to line 174. \<open>available\<close> is \<^verbatim>\<open>extractor.is_available()\<close>,
  \<open>extracted\<close> what \<^verbatim>\<open>extract_from_presentation\<close> returned, \<open>start_slide\<close> and \<open>end_slide\<close>
  the two options of the command line. The run ends with \<^verbatim>\<open>sys.exit(1)\<close> when a
  component or the key is missing or no slide was extracted, and when an exception
  leaves the analysis, which the last handler of \<^verbatim>\<open>main\<close> catches; otherwise control
  reaches the rendering with a value bound to \<^verbatim>\<open>results\<close>.
\<close>

datatype main_outcome = SysExit nat | Results run_output

text \<open>The slide range: an option that is absent or 0 counts as not given.\<close>

definition select_slides :: "int option \<Rightarrow> int option \<Rightarrow> slides \<Rightarrow> slides" where
  "select_slides start_slide end_slide slides_data =
     (let start_given = (start_slide \<noteq> None \<and> start_slide \<noteq> Some 0);
          end_given = (end_slide \<noteq> None \<and> end_slide \<noteq> Some 0)
      in if start_given \<or> end_given
         then
           let start = (if start_given then the start_slide else 1);
               end_num = (if end_given then the end_slide else Max (set (map fst slides_data)))
           in filter (\<lambda>(slide_num, sd). start \<le> slide_num \<and> slide_num \<le> end_num) slides_data
         else slides_data)"

definition main_run ::
  "bool \<Rightarrow> string option \<Rightarrow> slides \<Rightarrow> int option \<Rightarrow> int option \<Rightarrow>
   (json \<Rightarrow> py_exception + json list) \<Rightarrow> json_lib \<Rightarrow> string + response \<Rightarrow> main_outcome" where
  "main_run available api_key extracted start_slide end_slide sorted_other lib api_result =
     (if \<not> available then SysExit 1
      else if api_key = None \<or> api_key = Some [] then SysExit 1
      else if extracted = [] then SysExit 1
      else
        let slides_data = select_slides start_slide end_slide extracted in
        case analysis_run api_key sorted_other lib api_result slides_data of
          Inl e \<Rightarrow> SysExit 1
        | Inr results \<Rightarrow> Results results)"

subsection \<open>Percentages in the fact extraction\<close>

text \<open>
  The fragment of regular expressions that the percentage pattern uses, with the
  backtracking order of \<^verbatim>\<open>re\<close>: \<open>rmatch r s\<close> lists what is left of \<open>s\<close> after each way
  \<open>r\<close> matches a prefix of \<open>s\<close>, the preferred way first. Quantifiers are greedy.
\<close>

datatype regex =
  Lit char
| Seq regex regex
| Opt regex
| StarC "char \<Rightarrow> bool"
| PlusC "char \<Rightarrow> bool"

fun star_rests :: "(char \<Rightarrow> bool) \<Rightarrow> string \<Rightarrow> string list" where
  "star_rests p [] = [[]]"
| "star_rests p (c # cs) = (if p c then star_rests p cs @ [c # cs] else [c # cs])"

fun rmatch :: "regex \<Rightarrow> string \<Rightarrow> string list" where
  "rmatch (Lit a) s = (case s of [] \<Rightarrow> [] | c # cs \<Rightarrow> if c = a then [cs] else [])"
| "rmatch (Seq r1 r2) s = concat (map (rmatch r2) (rmatch r1 s))"
| "rmatch (Opt r) s = rmatch r s @ [s]"
| "rmatch (StarC p) s = star_rests p s"
| "rmatch (PlusC p) s = (case s of [] \<Rightarrow> [] | c # cs \<Rightarrow> if p c then star_rests p cs else [])"

text \<open>
  \<^verbatim>\<open>re.findall\<close> for a pattern without groups: scanning from the left, the first way
  the pattern matches at a position gives an entry, and the scan goes on behind it
  (\<open>skip\<close> counts the characters of the last match still to pass); where the pattern
  does not match, the scan moves one character on.
\<close>

fun findall_from :: "regex \<Rightarrow> nat \<Rightarrow> string \<Rightarrow> string list" where
  "findall_from r skip [] =
     (if skip = 0 \<and> rmatch r [] \<noteq> [] then [[]] else [])"
| "findall_from r skip (c # cs) =
     (if skip > 0 then findall_from r (skip - 1) cs
      else
        case rmatch r (c # cs) of
          [] \<Rightarrow> findall_from r 0 cs
        | rest # others \<Rightarrow>
            let n = length (c # cs) - length rest in
            take n (c # cs) # findall_from r (n - 1) cs)"

definition findall :: "regex \<Rightarrow> string \<Rightarrow> string list" where
  "findall r s = findall_from r 0 s"

definition is_digit :: "char \<Rightarrow> bool" where
  "is_digit c \<longleftrightarrow> c \<in> set ''0123456789''"

text \<open>\<^verbatim>\<open>r'\d+(?:\.\d+)?\s*%'\<close>.\<close>

definition percentage_pattern :: regex where
  "percentage_pattern =
     Seq (PlusC is_digit)
       (Seq (Opt (Seq (Lit CHR ''.'') (PlusC is_digit)))
          (Seq (StarC is_space) (Lit CHR ''%'')))"

text \<open>The \<^verbatim>\<open>'percentages'\<close> entry of the result of \<^verbatim>\<open>extract_numbers_and_dates\<close>.\<close>

definition extract_percentages :: "string \<Rightarrow> string list" where
  "extract_percentages txt = (if txt = [] then [] else findall percentage_pattern txt)"

subsection \<open>Reconciliation as the specification words it\<close>

text \<open>
  Following the specification's words, not the code: of a list, keep the entries whose
  deduplication key does not occur at an earlier position, in their order.
\<close>

definition first_occurrences :: "finding list \<Rightarrow> finding list" where
  "first_occurrences xs =
     map (\<lambda>i. xs ! i)
       (filter (\<lambda>i. dedup_key (xs ! i) \<notin> set (map dedup_key (take i xs))) [0..<length xs])"

subsection \<open>Example findings\<close>

text \<open>
  \<open>finding_B\<close> and \<open>finding_B'\<close> differ, and share their deduplication key: the same slides
  in another order, and descriptions that agree on their first 50 characters up to case.
\<close>

definition finding_A :: finding where
  "finding_A =
     \<lparr>slide_numbers = Some [1, 3],
      description = Some ''Conflicting revenue figures: $500,000 appears on multiple slides'',
      severity = Some ''high'',
      type = Some ''revenue_conflict''\<rparr>"

definition finding_B :: finding where
  "finding_B =
     \<lparr>slide_numbers = Some [2, 5],
      description = Some ''Market described as both highly competitive and having few competitors'',
      severity = Some ''high'',
      type = Some ''contradictory_statements''\<rparr>"

definition finding_B' :: finding where
  "finding_B' =
     \<lparr>slide_numbers = Some [5, 2],
      description = Some ''MARKET DESCRIBED AS BOTH HIGHLY COMPETITIVE AND HARDLY CONTESTED (slides 2, 5)'',
      severity = Some ''medium'',
      type = None\<rparr>"

definition finding_C :: finding where
  "finding_C =
     \<lparr>slide_numbers = Some [4],
      description = Some ''Launch date precedes the funding round'',
      severity = None,
      type = None\<rparr>"

subsection \<open>Example slides\<close>

text \<open>
  The slides of the specification's examples, with the facts that the extraction finds in
  their text, and a slide whose text names one amount twice.
\<close>

definition slide_1 :: slide_data where
  "slide_1 = \<lparr>texts = [''Revenue increased to $500,000''], numbers = [''500,000''],
              percentages = [], currency = [''$500,000''], dates = []\<rparr>"

definition slide_3 :: slide_data where
  "slide_3 = \<lparr>texts = [''Total revenue: $500,000''], numbers = [''500,000''],
              percentages = [], currency = [''$500,000''], dates = []\<rparr>"

definition revenue_slides :: slides where
  "revenue_slides = [(1, slide_1), (3, slide_3)]"

definition slide_2 :: slide_data where
  "slide_2 = \<lparr>texts = [''we are in a highly competitive market''], numbers = [],
              percentages = [], currency = [], dates = []\<rparr>"

definition slide_5 :: slide_data where
  "slide_5 = \<lparr>texts = [''there are few competitors in this space''], numbers = [],
              percentages = [], currency = [], dates = []\<rparr>"

definition competition_slides :: slides where
  "competition_slides = [(2, slide_2), (5, slide_5)]"

definition repeated_slide :: slide_data where
  "repeated_slide = \<lparr>texts = [''Revenue of $500 against sales costs of $500''],
              numbers = [''500'', ''500''], percentages = [],
              currency = [''$500'', ''$500''], dates = []\<rparr>"

subsection \<open>The strings handed to the JSON parser\<close>

text \<open>
  The arguments of the calls of \<^verbatim>\<open>json.loads\<close> that \<^verbatim>\<open>_robust_json_parse\<close> makes when
  none returns: the text, the first fenced block, every brace-balanced match, the text
  without its fences, the repaired text.
\<close>

definition attempts :: "json_lib \<Rightarrow> string \<Rightarrow> string list" where
  "attempts lib txt =
     txt # take 1 (findall_fenced lib txt) @ findall_objects lib txt
     @ [clean_fences txt, fix_common_json_issues lib txt]"

subsection \<open>Example responses\<close>

text \<open>
  In the examples every \<^verbatim>\<open>slide_numbers\<close> that is sorted is a list of integers, so
  \<open>sorted_other\<close> is not consulted; \<open>sorted_not_consulted\<close> stands for it.
  The library on the text \<^verbatim>\<open>gibberish\<close>: nothing parses, and no pattern matches. The
  libraries on texts that the first strategy parses; the patterns are not consulted.
\<close>

definition sorted_not_consulted :: "json \<Rightarrow> py_exception + json list" where
  "sorted_not_consulted v = Inl OtherException"

definition unparseable_lib :: json_lib where
  "unparseable_lib =
     \<lparr>json_loads = (\<lambda>s. Inl JSONDecodeError), findall_fenced = (\<lambda>s. []),
      findall_objects = (\<lambda>s. []), fix_common_json_issues = (\<lambda>s. s)\<rparr>"

definition gibberish_response :: response where
  "gibberish_response = \<lparr>candidates = Some [WellFormed ''gibberish'']\<rparr>"

definition lib_parsing :: "string \<Rightarrow> json \<Rightarrow> json_lib" where
  "lib_parsing parsed_text v =
     \<lparr>json_loads = (\<lambda>s. if s = parsed_text then Inr v else Inl JSONDecodeError),
      findall_fenced = (\<lambda>s. []), findall_objects = (\<lambda>s. []),
      fix_common_json_issues = (\<lambda>s. s)\<rparr>"





text \<open>
  A legacy response for two slides with dates: an item that repeats the rule-based
  timeline finding, with the slides in another order, another case and another ending of
  the description and a key of its own, and an item that is new.
\<close>

definition dated_slides :: slides where
  "dated_slides =
     [(1, \<lparr>texts = [''Kickoff'', ''Launch planned for 01/02/2024''],
           numbers = [''01'', ''02'', ''2024''], percentages = [], currency = [],
           dates = [''01/02/2024'']\<rparr>),
      (2, \<lparr>texts = [''Launch moved to 03/04/2025''],
           numbers = [''03'', ''04'', ''2025''], percentages = [], currency = [],
           dates = [''03/04/2025'']\<rparr>)]"







text \<open>
  Two responses that parse and whose values are not of the legacy shape: a report that
  is \<^verbatim>\<open>null\<close>, and a finding whose description is \<^verbatim>\<open>null\<close>.
\<close>

definition null_report_text :: string where
  "null_report_text = ''{\"intelligence_report\": null}''"

definition null_report_lib :: json_lib where
  "null_report_lib = lib_parsing null_report_text (JObj [(''intelligence_report'', JNull)])"

definition null_description_text :: string where
  "null_description_text =
     ''{\"numerical_conflicts\": [{\"slide_numbers\": [1], \"description\": null}]}''"

definition null_description_lib :: json_lib where
  "null_description_lib =
     lib_parsing null_description_text
       (JObj [(''numerical_conflicts'',
               JArr [JObj [(''slide_numbers'', JArr [JInt 1]), (''description'', JNull)]])])"

text \<open>
  A legacy analysis that holds one finding twice under \<^verbatim>\<open>logical_inconsistencies\<close>, and
  the detection result of the two revenue slides with it.
\<close>

definition logical_analysis :: ai_analysis where
  "logical_analysis =
     empty_ai_analysis
       \<lparr>ai_inconsistencies :=
          Some (JObj [(''logical_inconsistencies'',
                       JArr [finding_json finding_C, finding_json finding_C])]),
        ai_slides_analyzed := Some 2,
        ai_analysis_type := Some ''legacy''\<rparr>"

definition logical_result :: detection_result where
  "logical_result =
     \<lparr>summary = \<lparr>total_slides = 2, slides_analyzed = 2, inconsistencies_found = 2,
                 severity_breakdown = [(JStr ''high'', 1), (JStr ''unknown'', 1)],
                 category_breakdown = [(''numerical_conflicts'', 1), (''contradictory_statements'', 0),
                                       (''timeline_issues'', 0), (''logical_inconsistencies'', 1)]\<rparr>,
      inconsistencies = [(''numerical_conflicts'', [finding_json finding_A]),
                         (''contradictory_statements'', []),
                         (''timeline_issues'', []),
                         (''logical_inconsistencies'', [finding_json finding_C])],
      rule_based_count = 1, ai_based_count = 2\<rparr>"

text \<open>A slide with the second phrase of a pair, which contains the first.\<close>

definition unprofitable_slides :: slides where
  "unprofitable_slides =
     [(7, \<lparr>texts = [''The unit stayed unprofitable''], numbers = [], percentages = [],
            currency = [], dates = []\<rparr>)]"

subsection \<open>The shape of a percentage as the specification words it\<close>

text \<open>
  Following the specification's words, not the code. A number is an integer or a
  decimal: digits, then possibly a point and digits. \<open>number_then_percent\<close>: a number
  immediately followed by \<^verbatim>\<open>%\<close>. \<open>number_space_percent\<close>: a number, then possibly white
  space, then \<^verbatim>\<open>%\<close>.
\<close>

definition is_number :: "string \<Rightarrow> bool" where
  "is_number s =
     (let ds = takeWhile is_digit s; rest = dropWhile is_digit s
      in ds \<noteq> [] \<and>
         (rest = [] \<or> (hd rest = CHR ''.'' \<and> tl rest \<noteq> [] \<and> list_all is_digit (tl rest))))"

definition number_then_percent :: "string \<Rightarrow> bool" where
  "number_then_percent e = (e \<noteq> [] \<and> last e = CHR ''%'' \<and> is_number (butlast e))"

definition number_space_percent :: "string \<Rightarrow> bool" where
  "number_space_percent e =
     (e \<noteq> [] \<and> last e = CHR ''%'' \<and> is_number (rev (dropWhile is_space (rev (butlast e)))))"

subsection \<open>Occurrences of a value across the slides\<close>

text \<open>
  The slide numbers under which a value is collected: each slide whose text holds one of
  the context words, once for every time the value stands in the slide's list.
  \<open>well_formed\<close> is the invariant of a grouping: no key twice, no empty list.
\<close>

definition occurrences ::
  "string list \<Rightarrow> (slide_data \<Rightarrow> string list) \<Rightarrow> slides \<Rightarrow> string \<Rightarrow> int list" where
  "occurrences words field slides_data metric =
     concat (map (\<lambda>(slide_num, sd).
        if any_word_in words (slide_text_of sd)
        then replicate (count_list (field sd) metric) slide_num else []) slides_data)"

definition well_formed :: "(string \<times> int list) list \<Rightarrow> bool" where
  "well_formed d \<longleftrightarrow> distinct (map fst d) \<and> [] \<notin> snd ` set d"

subsection \<open>Well-formed items and their typed reading\<close>

text \<open>
  An item is well formed when it is a dictionary whose slide numbers, if present, are a
  list of integers, whose description, if present, is a string, and whose severity, if
  present, is no list and no dictionary; it may hold any other key. \<open>as_finding\<close> reads
  such an item as a typed finding. A report has the legacy shape when it is a dictionary
  that holds, under each category key it has, a list of well-formed items.
\<close>

definition well_formed_item :: "json \<Rightarrow> bool" where
  "well_formed_item item =
     (case item of
        JObj kvs \<Rightarrow>
          (case map_of kvs ''slide_numbers'' of
             None \<Rightarrow> True
           | Some (JArr xs) \<Rightarrow> ints_of xs \<noteq> None
           | Some v \<Rightarrow> False)
          \<and> (case map_of kvs ''description'' of
                None \<Rightarrow> True
              | Some (JStr d) \<Rightarrow> True
              | Some v \<Rightarrow> False)
          \<and> (case map_of kvs ''severity'' of
                None \<Rightarrow> True
              | Some v \<Rightarrow> hashable v)
      | _ \<Rightarrow> False)"

definition string_of :: "json option \<Rightarrow> string option" where
  "string_of v = (case v of Some (JStr s) \<Rightarrow> Some s | _ \<Rightarrow> None)"

definition as_finding :: "json \<Rightarrow> finding" where
  "as_finding item =
     (case item of
        JObj kvs \<Rightarrow>
          \<lparr>slide_numbers = (case map_of kvs ''slide_numbers'' of
                              Some (JArr xs) \<Rightarrow> ints_of xs
                            | _ \<Rightarrow> None),
           description = string_of (map_of kvs ''description''),
           severity = string_of (map_of kvs ''severity''),
           type = string_of (map_of kvs ''type'')\<rparr>
      | _ \<Rightarrow> \<lparr>slide_numbers = None, description = None, severity = None, type = None\<rparr>)"

definition legacy_items :: "json \<Rightarrow> string \<Rightarrow> json list" where
  "legacy_items report category =
     (case report of
        JObj kvs \<Rightarrow> (case map_of kvs category of Some (JArr xs) \<Rightarrow> xs | _ \<Rightarrow> [])
      | _ \<Rightarrow> [])"

definition legacy_shape :: "json \<Rightarrow> bool" where
  "legacy_shape report =
     (case report of
        JObj kvs \<Rightarrow>
          list_all (\<lambda>category.
              case map_of kvs category of
                None \<Rightarrow> True
              | Some (JArr xs) \<Rightarrow> list_all well_formed_item xs
              | Some v \<Rightarrow> False)
            categories
      | _ \<Rightarrow> False)"

text \<open>
  Following the specification's words, on items: keep the items whose deduplication
  key, the key of their typed reading, does not occur at an earlier position.
\<close>

definition first_occurrences_json :: "json list \<Rightarrow> json list" where
  "first_occurrences_json xs =
     map (\<lambda>i. xs ! i)
       (filter (\<lambda>i. dedup_key (as_finding (xs ! i))
                      \<notin> set (map (\<lambda>x. dedup_key (as_finding x)) (take i xs)))
          [0..<length xs])"

subsection \<open>The text of a slide as the specification words it\<close>

text \<open>
  Following the specification's words, not the code: the concatenated text of a slide is
  its fragments with one space between neighbours, and lowercasing moves each of the
  letters A to Z by 32 code points and leaves every other character.
\<close>

definition lowercased_concatenated_text :: "string list \<Rightarrow> string" where
  "lowercased_concatenated_text fragments =
     map (\<lambda>c. if c \<in> set ''ABCDEFGHIJKLMNOPQRSTUVWXYZ''
               then char_of (of_char c + (32::nat)) else c)
       (drop 1 (concat (map (\<lambda>fragment. CHR '' '' # fragment) fragments)))"

text \<open>
  Slides of several fragments in mixed case; on the first the phrase
  \<^verbatim>\<open>highly competitive\<close> runs across two fragments.
\<close>

definition mixed_case_slides :: slides where
  "mixed_case_slides =
     [(2, \<lparr>texts = [''Market Overview'', ''We operate in a HIGHLY'', ''Competitive market''],
           numbers = [], percentages = [], currency = [], dates = []\<rparr>),
      (4, \<lparr>texts = [''Team'', ''Highly motivated''], numbers = [], percentages = [],
           currency = [], dates = []\<rparr>),
      (5, \<lparr>texts = [''Risks'', ''There are Few Competitors in this space''],
           numbers = [], percentages = [], currency = [], dates = []\<rparr>)]"

subsection \<open>The reconciled detection result\<close>

text \<open>
  The elements of a list value.
\<close>

definition json_items :: "json \<Rightarrow> json list" where
  "json_items v = (case v of JArr xs \<Rightarrow> xs | _ \<Rightarrow> [])"

text \<open>
  Following the specification's words: a run ends with the reconciled detection result
  of the slides and the AI items when it ends with a detection result whose mapping
  holds, for each of the four categories, the first occurrences among the rule-based
  findings followed by the AI items, whose summary is the summary of that mapping, and
  whose two counts are the numbers of rule-based findings and of AI items.
\<close>

definition reconciled_detection_result ::
  "main_outcome \<Rightarrow> slides \<Rightarrow> (string \<Rightarrow> json list) \<Rightarrow> bool" where
  "reconciled_detection_result run slides_data ai_items =
     (case run of
        Results (DetectionResult d) \<Rightarrow>
          inconsistencies d =
            map (\<lambda>category.
                   (category,
                    first_occurrences_json
                      (map finding_json (get_list (rule_based_detection slides_data) category)
                       @ ai_items category)))
              categories
          \<and> calculate_summary_json (inconsistencies d) slides_data = Inr (summary d)
          \<and> rule_based_count d = length (flatten_inconsistencies (rule_based_detection slides_data))
          \<and> ai_based_count d = sum_list (map (\<lambda>category. length (ai_items category)) categories)
      | _ \<Rightarrow> False)"

section \<open>Properties\<close>

subsection \<open>Deduplication\<close>

lemma dedup_loop_acc: "dedup_loop u seen xs = u @ dedup_loop [] seen xs"
proof (induction xs arbitrary: u seen)
  case Nil
  show ?case by simp
next
  case (Cons x xs)
  show ?case
    using Cons.IH [of "u @ [x]" "insert (dedup_key x) seen"]
          Cons.IH [of "[x]" "insert (dedup_key x) seen"]
          Cons.IH [of u seen]
    by (simp add: Let_def)
qed

lemma dedup_loop_Cons:
  "dedup_loop [] seen (x # xs) =
     (if dedup_key x \<in> seen then dedup_loop [] seen xs
      else x # dedup_loop [] (insert (dedup_key x) seen) xs)"
  using dedup_loop_acc [of "[x]" "insert (dedup_key x) seen" xs] by (simp add: Let_def)

declare dedup_loop.simps(2) [simp del]

lemma dedup_loop_append:
  "dedup_loop [] seen (xs @ ys) =
     dedup_loop [] seen xs @ dedup_loop [] (seen \<union> dedup_key ` set xs) ys"
proof (induction xs arbitrary: seen)
  case Nil
  show ?case by simp
next
  case (Cons x xs)
  have "insert (dedup_key x) seen \<union> dedup_key ` set xs = seen \<union> dedup_key ` set (x # xs)"
    by auto
  moreover have "dedup_key x \<in> seen \<Longrightarrow> seen \<union> dedup_key ` set xs = seen \<union> dedup_key ` set (x # xs)"
    by auto
  ultimately show ?case
    using Cons.IH [of seen] Cons.IH [of "insert (dedup_key x) seen"]
    by (simp only: dedup_loop_Cons append_Cons split: if_splits) simp
qed

lemma dedup_loop_seen: "dedup_key ` set ys \<subseteq> seen \<Longrightarrow> dedup_loop [] seen ys = []"
  by (induction ys) (simp_all add: dedup_loop_Cons)

lemma dedup_loop_length: "length (dedup_loop [] seen xs) \<le> length xs"
proof (induction xs arbitrary: seen)
  case Nil
  show ?case by simp
next
  case (Cons x xs)
  show ?case
    using Cons.IH [of seen] Cons.IH [of "insert (dedup_key x) seen"]
    by (simp add: dedup_loop_Cons)
qed

lemma dedup_loop_keys:
  "seen \<union> dedup_key ` set (dedup_loop [] seen xs) = seen \<union> dedup_key ` set xs"
proof (induction xs arbitrary: seen)
  case Nil
  show ?case by simp
next
  case (Cons x xs)
  show ?case
    using Cons.IH [of seen] Cons.IH [of "insert (dedup_key x) seen"]
    by (auto simp add: dedup_loop_Cons)
qed

lemma dedup_loop_id:
  "dedup_loop [] seen xs = xs \<longleftrightarrow>
     distinct (map dedup_key xs) \<and> dedup_key ` set xs \<inter> seen = {}"
proof (induction xs arbitrary: seen)
  case Nil
  show ?case by simp
next
  case (Cons x xs)
  show ?case
  proof (cases "dedup_key x \<in> seen")
    case True
    have "length (dedup_loop [] seen xs) \<noteq> length (x # xs)"
      using dedup_loop_length [of seen xs] by simp
    then have "dedup_loop [] seen xs \<noteq> x # xs" by metis
    with True show ?thesis by (auto simp add: dedup_loop_Cons)
  next
    case False
    then show ?thesis
      using Cons.IH [of "insert (dedup_key x) seen"]
      by (auto simp add: dedup_loop_Cons)
  qed
qed

lemma dedup_loop_first_occurrences:
  "dedup_loop [] seen xs =
     map (\<lambda>i. xs ! i)
       (filter (\<lambda>i. dedup_key (xs ! i) \<notin> seen \<union> set (map dedup_key (take i xs))) [0..<length xs])"
proof (induction xs arbitrary: seen)
  case Nil
  show ?case by simp
next
  case (Cons x xs)
  let ?P = "\<lambda>s ys i. dedup_key (ys ! i) \<notin> s \<union> set (map dedup_key (take i ys))"
  have upt: "[0..<length (x # xs)] = 0 # map Suc [0..<length xs]"
    by (simp add: upt_conv_Cons map_Suc_upt del: upt_Suc)
  have shift: "map (\<lambda>i. (x # xs) ! i) (filter (?P seen (x # xs)) (map Suc [0..<length xs])) =
               map (\<lambda>i. xs ! i) (filter (\<lambda>i. ?P seen (x # xs) (Suc i)) [0..<length xs])"
    by (simp only: filter_map comp_def map_map nth_Cons_Suc)
  show ?case
  proof (cases "dedup_key x \<in> seen")
    case True
    have feq: "filter (\<lambda>i. ?P seen (x # xs) (Suc i)) [0..<length xs] =
          filter (?P seen xs) [0..<length xs]"
      using True by (intro filter_cong) auto
    have "dedup_loop [] seen (x # xs) = dedup_loop [] seen xs"
      using True by (simp add: dedup_loop_Cons)
    also have "\<dots> = map (\<lambda>i. xs ! i) (filter (?P seen xs) [0..<length xs])"
      by (rule Cons.IH)
    also have "\<dots> = map (\<lambda>i. xs ! i) (filter (\<lambda>i. ?P seen (x # xs) (Suc i)) [0..<length xs])"
      by (simp only: feq)
    also have "\<dots> = map (\<lambda>i. (x # xs) ! i) (filter (?P seen (x # xs)) (map Suc [0..<length xs]))"
      by (simp only: shift)
    also have "\<dots> = map (\<lambda>i. (x # xs) ! i) (filter (?P seen (x # xs)) (0 # map Suc [0..<length xs]))"
      using True by simp
    finally show ?thesis by (simp only: upt)
  next
    case False
    have feq: "filter (\<lambda>i. ?P seen (x # xs) (Suc i)) [0..<length xs] =
          filter (?P (insert (dedup_key x) seen) xs) [0..<length xs]"
      by (intro filter_cong) auto
    have "dedup_loop [] seen (x # xs) = x # dedup_loop [] (insert (dedup_key x) seen) xs"
      using False by (simp add: dedup_loop_Cons)
    also have "\<dots> = x # map (\<lambda>i. xs ! i) (filter (?P (insert (dedup_key x) seen) xs) [0..<length xs])"
      by (simp only: Cons.IH)
    also have "\<dots> = x # map (\<lambda>i. xs ! i) (filter (\<lambda>i. ?P seen (x # xs) (Suc i)) [0..<length xs])"
      by (simp only: feq)
    also have "\<dots> = x # map (\<lambda>i. (x # xs) ! i) (filter (?P seen (x # xs)) (map Suc [0..<length xs]))"
      by (simp only: shift)
    also have "\<dots> = map (\<lambda>i. (x # xs) ! i) (filter (?P seen (x # xs)) (0 # map Suc [0..<length xs]))"
      using False by simp
    finally show ?thesis by (simp only: upt)
  qed
qed

lemma deduplicate_items_first_occurrences: "deduplicate_items xs = first_occurrences xs"
  by (simp add: deduplicate_items_def first_occurrences_def dedup_loop_first_occurrences)

lemma get_list_simps: "get_list [] k = []"
  "get_list ((k', v) # d) k = (if k' = k then v else get_list d k)"
  by (simp_all add: get_list_def)

lemma combine_results_eq:
  "combine_results rule_based ai_based =
     map (\<lambda>category. (category,
            deduplicate_items (get_list rule_based category @ get_list ai_based category)))
       categories"
  by (simp add: combine_results_def categories_def Let_def)

lemma keyA: "dedup_key finding_A = ([1, 3], ''conflicting revenue figures: $500,000 appears on m'')"
  by (simp add: dedup_key_def finding_A_def get_or_empty_def lower_def lower_char_def)

lemma keyB: "dedup_key finding_B = ([2, 5], ''market described as both highly competitive and ha'')"
  by (simp add: dedup_key_def finding_B_def get_or_empty_def lower_def lower_char_def)

lemma keyB': "dedup_key finding_B' = ([2, 5], ''market described as both highly competitive and ha'')"
  by (simp add: dedup_key_def finding_B'_def get_or_empty_def lower_def lower_char_def)

lemma keyC: "dedup_key finding_C = ([4], ''launch date precedes the funding round'')"
  by (simp add: dedup_key_def finding_C_def get_or_empty_def lower_def lower_char_def)

text \<open>
  Claim C6, as amended. Deduplicating a finding list concatenated with itself gives what
  deduplicating the list gives: entries with the same key collapse and the first
  occurrence is kept. The result is the original list exactly when no two entries of the
  list share a deduplication key.
\<close>

theorem dedup_self_concat:
  "deduplicate_items (x @ x) = deduplicate_items x \<and>
   (deduplicate_items (x @ x) = x \<longleftrightarrow> distinct (map dedup_key x))"
proof -
  have "dedup_loop [] ({} \<union> dedup_key ` set x) x = []"
    by (rule dedup_loop_seen) simp
  then have eq: "deduplicate_items (x @ x) = deduplicate_items x"
    by (simp add: deduplicate_items_def dedup_loop_append)
  moreover have "deduplicate_items x = x \<longleftrightarrow> distinct (map dedup_key x)"
    by (simp add: deduplicate_items_def dedup_loop_id)
  ultimately show ?thesis by simp
qed

theorem dedup_self_concat_witness:
  "deduplicate_items ([finding_A, finding_B] @ [finding_A, finding_B]) = [finding_A, finding_B]
   \<and> distinct (map dedup_key [finding_A, finding_B])"
proof -
  have d: "distinct (map dedup_key [finding_A, finding_B])"
    by (simp add: keyA keyB)
  with dedup_self_concat [of "[finding_A, finding_B]"] show ?thesis by blast
qed

text \<open>
  A list with two entries of one key is not given back unchanged: reconciling
  \<open>[finding_B, finding_B']\<close> against itself leaves \<open>[finding_B]\<close>.
\<close>

theorem dedup_self_concat_counterexample:
  "deduplicate_items ([finding_B, finding_B'] @ [finding_B, finding_B']) \<noteq> [finding_B, finding_B']"
  by (simp add: deduplicate_items_def dedup_loop_Cons keyB keyB')

lemma dedup_ABBC:
  assumes "dedup_key B' = dedup_key B" and "distinct (map dedup_key [A, B, C])"
  shows "deduplicate_items ([A, B] @ [B', C]) = [A, B, C]"
  using assms by (auto simp add: deduplicate_items_def dedup_loop_Cons)

text \<open>
  Claim C2. For each of the four categories, reconciliation concatenates the rule-based
  list and the AI list, rule-based first, and keeps the first occurrence of each
  deduplication key in the order of the concatenation. For a rule list \<open>[A, B]\<close> and an
  AI list \<open>[B', C]\<close> where \<open>B\<close> and \<open>B'\<close> share a key and \<open>A\<close>, \<open>B\<close>, \<open>C\<close> have three keys, the
  merged list is \<open>[A, B, C]\<close>. The key of a finding is its sorted slide numbers with the
  first 50 characters of its lowercased description.
\<close>

theorem combine_results_first_occurrences:
  "combine_results rule_based ai_based =
     map (\<lambda>category. (category,
            first_occurrences (get_list rule_based category @ get_list ai_based category)))
       categories
   \<and> (category \<in> set categories \<and> get_list rule_based category = [A, B]
        \<and> get_list ai_based category = [B', C]
        \<and> dedup_key B' = dedup_key B \<and> distinct (map dedup_key [A, B, C])
      \<longrightarrow> map_of (combine_results rule_based ai_based) category = Some [A, B, C])
   \<and> dedup_key item =
       (sort (case slide_numbers item of None \<Rightarrow> [] | Some nums \<Rightarrow> nums),
        take 50 (lower (case description item of None \<Rightarrow> [] | Some d \<Rightarrow> d)))"
proof -
  have key: "dedup_key item =
       (sort (case slide_numbers item of None \<Rightarrow> [] | Some nums \<Rightarrow> nums),
        take 50 (lower (case description item of None \<Rightarrow> [] | Some d \<Rightarrow> d)))"
    by (simp add: dedup_key_def get_or_empty_def)
  have eq: "combine_results rule_based ai_based =
     map (\<lambda>category. (category,
            first_occurrences (get_list rule_based category @ get_list ai_based category)))
       categories"
    by (simp add: combine_results_eq deduplicate_items_first_occurrences)
  have "map_of (combine_results rule_based ai_based) category = Some [A, B, C]"
    if "category \<in> set categories" "get_list rule_based category = [A, B]"
       "get_list ai_based category = [B', C]"
       "dedup_key B' = dedup_key B" "distinct (map dedup_key [A, B, C])"
  proof -
    have "map_of (combine_results rule_based ai_based) category =
          Some (deduplicate_items (get_list rule_based category @ get_list ai_based category))"
      using that(1) unfolding combine_results_eq by (simp add: map_of_map_restrict)
    then show ?thesis using dedup_ABBC [OF that(4,5)] that(2,3) by simp
  qed
  with eq key show ?thesis by blast
qed

theorem combine_results_first_occurrences_witness:
  "combine_results [(''contradictory_statements'', [finding_A, finding_B])]
                   [(''contradictory_statements'', [finding_B', finding_C])] =
     [(''numerical_conflicts'', []),
      (''contradictory_statements'', [finding_A, finding_B, finding_C]),
      (''timeline_issues'', []),
      (''logical_inconsistencies'', [])]"
proof -
  let ?rb = "[(''contradictory_statements'', [finding_A, finding_B])]"
  let ?ai = "[(''contradictory_statements'', [finding_B', finding_C])]"
  have k: "dedup_key finding_B' = dedup_key finding_B"
          "distinct (map dedup_key [finding_A, finding_B, finding_C])"
    by (simp_all add: keyA keyB keyB' keyC)
  have g: "''contradictory_statements'' \<in> set categories"
          "get_list ?rb ''contradictory_statements'' = [finding_A, finding_B]"
          "get_list ?ai ''contradictory_statements'' = [finding_B', finding_C]"
    by (simp_all add: categories_def get_list_def)
  have m: "map_of (combine_results ?rb ?ai) ''contradictory_statements''
           = Some [finding_A, finding_B, finding_C]"
    using combine_results_first_occurrences
            [of ?rb ?ai "''contradictory_statements''" finding_A finding_B finding_B' finding_C]
          k g by blast
  have shape: "combine_results ?rb ?ai =
     [(''numerical_conflicts'', first_occurrences []),
      (''contradictory_statements'',
         the (map_of (combine_results ?rb ?ai) ''contradictory_statements'')),
      (''timeline_issues'', first_occurrences []),
      (''logical_inconsistencies'', first_occurrences [])]"
    using combine_results_first_occurrences
            [of ?rb ?ai "''contradictory_statements''" finding_A finding_B finding_B' finding_C]
    by (simp add: categories_def get_list_def)
  show ?thesis
    by (subst shape) (simp add: m first_occurrences_def)
qed

subsection \<open>Summary statistics\<close>



















subsection \<open>The items as the oracle sends them\<close>

text \<open>
  Python's operations on JSON values, on examples.
\<close>

lemma python_operations_examples:
  "py_in ''a'' (JObj [(''a'', JNull)]) = Inr True"
  "py_in ''a'' (JArr [JStr ''a'']) = Inr True"
  "py_in ''b'' (JStr ''abc'') = Inr True"
  "py_in ''a'' (JArr [JStr ''b'']) = Inr False"
  "py_in ''a'' (JInt 5) = Inl TypeError"
  "py_in ''a'' JNull = Inl TypeError"
  "py_getitem (JObj [(''a'', JNull)]) ''a'' = Inr JNull"
  "py_getitem (JObj []) ''a'' = Inl KeyError"
  "py_getitem (JArr [JStr ''a'']) ''a'' = Inl TypeError"
  "py_get (JObj []) ''a'' (JArr []) = Inr (JArr [])"
  "py_get (JArr []) ''a'' (JArr []) = Inl AttributeError"
  "py_get JNull ''a'' (JArr []) = Inl AttributeError"
  "py_eq (JBool True) (JInt 1)"
  "py_eq (JInt 1) (JFloat 1)"
  "\<not> py_eq (JStr ''1'') (JInt 1)"
  "\<not> py_eq JNull (JInt 0)"
  "\<not> truthy_json (JFloat 0)"
  "\<not> truthy_json (JObj [])"
  "truthy_json (JArr [JNull])"
  "sorted_json so (JArr [JInt 5, JInt 2]) = Inr [JInt 2, JInt 5]"
  "sorted_json so JNull = Inl TypeError"
  "sorted_json so (JInt 3) = Inl TypeError"
  by (simp_all add: py_eq_def sorted_json_def)

lemma item_key_examples:
  "item_key so (JObj [(''slide_numbers'', JArr [JInt 5, JInt 2]), (''description'', JStr ''Both HIGH'')])
     = Inr ([JInt 2, JInt 5], ''both high'')"
  "item_key so (JObj []) = Inr ([], [])"
  "item_key so (JStr ''finding'') = Inl AttributeError"
  "item_key so (JObj [(''slide_numbers'', JNull)]) = Inl TypeError"
  "item_key so (JObj [(''description'', JInt 3)]) = Inl AttributeError"
  by (simp_all add: item_key_def sorted_json_def lower_def lower_char_def)

text \<open>
  On well-formed items the loop of \<^verbatim>\<open>_deduplicate_items\<close> raises nothing and keeps the
  first occurrences; on records it is the typed function.
\<close>

lemma ints_of_map_JInt: "ints_of (map JInt nums) = Some nums"
  by (induction nums) simp_all

lemma ints_of_Some: "ints_of xs = Some nums \<Longrightarrow> xs = map JInt nums"
proof (induction xs arbitrary: nums rule: ints_of.induct)
  case 1
  then show ?case by simp
next
  case (2 i xs)
  then show ?case by (cases "ints_of xs") auto
qed simp_all

lemma as_finding_finding_json: "as_finding (finding_json f) = f"
  by (cases "slide_numbers f"; cases "description f"; cases "severity f"; cases "type f")
     (simp_all add: as_finding_def finding_json_def string_of_def ints_of_map_JInt)

lemma well_formed_finding_json: "well_formed_item (finding_json f)"
  by (cases "slide_numbers f"; cases "description f"; cases "severity f"; cases "type f")
     (simp_all add: well_formed_item_def finding_json_def ints_of_map_JInt)

lemma item_key_well_formed:
  assumes "well_formed_item x"
  shows "item_key so x = Inr (map JInt (fst (dedup_key (as_finding x))), snd (dedup_key (as_finding x)))"
proof -
  from assms obtain kvs where x: "x = JObj kvs"
    by (cases x) (simp_all add: well_formed_item_def)
  show ?thesis
    using assms unfolding x
    by (auto simp add: well_formed_item_def item_key_def as_finding_def dedup_key_def
          get_or_empty_def sorted_json_def string_of_def Let_def lower_def
          split: option.splits json.splits)
qed

lemma py_eq_JInt: "py_eq (JInt a) (JInt b) \<longleftrightarrow> a = b"
  by (simp add: py_eq_def)

lemma list_all2_py_eq_JInt: "list_all2 py_eq (map JInt a) (map JInt b) \<longleftrightarrow> a = b"
proof (induction a arbitrary: b)
  case Nil
  show ?case by auto
next
  case (Cons x a)
  show ?case by (cases b) (auto simp add: py_eq_JInt Cons.IH)
qed

lemma list_ex_key_eq:
  "list_ex (key_eq (map JInt (fst k), snd k)) (map (\<lambda>k. (map JInt (fst k), snd k)) seen)
     \<longleftrightarrow> k \<in> set seen"
  by (induction seen) (auto simp add: key_eq_def list_all2_py_eq_JInt prod_eq_iff)

lemma hashable_JInt: "list_all hashable (map JInt a)"
  by (induction a) simp_all

lemma dedup_loop_json_step:
  assumes "well_formed_item x"
  shows "dedup_loop_json so u (map (\<lambda>k. (map JInt (fst k), snd k)) seen) (x # xs) =
     (if dedup_key (as_finding x) \<in> set seen
      then dedup_loop_json so u (map (\<lambda>k. (map JInt (fst k), snd k)) seen) xs
      else dedup_loop_json so (u @ [x])
             (map (\<lambda>k. (map JInt (fst k), snd k)) (seen @ [dedup_key (as_finding x)])) xs)"
  using list_ex_key_eq [of "dedup_key (as_finding x)" seen]
  by (simp add: item_key_well_formed [OF assms] hashable_JInt)

lemma dedup_loop_json_first_occurrences:
  assumes "list_all well_formed_item xs"
  shows "dedup_loop_json so u (map (\<lambda>k. (map JInt (fst k), snd k)) seen) xs =
     Inr (u @ map (\<lambda>i. xs ! i)
       (filter (\<lambda>i. dedup_key (as_finding (xs ! i))
                  \<notin> set seen \<union> set (map (\<lambda>x. dedup_key (as_finding x)) (take i xs)))
          [0..<length xs]))"
  using assms
proof (induction xs arbitrary: u seen)
  case Nil
  show ?case by simp
next
  case (Cons x xs)
  let ?K = "\<lambda>x. dedup_key (as_finding x)"
  let ?P = "\<lambda>s ys i. ?K (ys ! i) \<notin> s \<union> set (map ?K (take i ys))"
  from Cons.prems have wx: "well_formed_item x" and wxs: "list_all well_formed_item xs"
    by simp_all
  have upt: "[0..<length (x # xs)] = 0 # map Suc [0..<length xs]"
    by (simp add: upt_conv_Cons map_Suc_upt del: upt_Suc)
  have shift: "map (\<lambda>i. (x # xs) ! i) (filter (?P s (x # xs)) (map Suc [0..<length xs])) =
               map (\<lambda>i. xs ! i) (filter (\<lambda>i. ?P s (x # xs) (Suc i)) [0..<length xs])" for s
    by (simp only: filter_map comp_def map_map nth_Cons_Suc)
  show ?case
  proof (cases "?K x \<in> set seen")
    case True
    have feq: "filter (\<lambda>i. ?P (set seen) (x # xs) (Suc i)) [0..<length xs] =
          filter (?P (set seen) xs) [0..<length xs]"
      using True by (intro filter_cong) auto
    have "dedup_loop_json so u (map (\<lambda>k. (map JInt (fst k), snd k)) seen) (x # xs) =
          dedup_loop_json so u (map (\<lambda>k. (map JInt (fst k), snd k)) seen) xs"
      using True by (simp only: dedup_loop_json_step [OF wx] if_True)
    also have "\<dots> = Inr (u @ map (\<lambda>i. xs ! i) (filter (?P (set seen) xs) [0..<length xs]))"
      by (rule Cons.IH [OF wxs])
    also have "\<dots> = Inr (u @ map (\<lambda>i. xs ! i) (filter (\<lambda>i. ?P (set seen) (x # xs) (Suc i)) [0..<length xs]))"
      by (simp only: feq)
    also have "\<dots> = Inr (u @ map (\<lambda>i. (x # xs) ! i) (filter (?P (set seen) (x # xs)) (map Suc [0..<length xs])))"
      by (simp only: shift)
    also have "\<dots> = Inr (u @ map (\<lambda>i. (x # xs) ! i) (filter (?P (set seen) (x # xs)) (0 # map Suc [0..<length xs])))"
      using True by simp
    finally show ?thesis by (simp only: upt)
  next
    case False
    have feq: "filter (\<lambda>i. ?P (set seen) (x # xs) (Suc i)) [0..<length xs] =
          filter (?P (set (seen @ [?K x])) xs) [0..<length xs]"
      by (intro filter_cong) auto
    have "dedup_loop_json so u (map (\<lambda>k. (map JInt (fst k), snd k)) seen) (x # xs) =
          dedup_loop_json so (u @ [x]) (map (\<lambda>k. (map JInt (fst k), snd k)) (seen @ [?K x])) xs"
      using False by (simp only: dedup_loop_json_step [OF wx] if_False)
    also have "\<dots> = Inr ((u @ [x]) @ map (\<lambda>i. xs ! i) (filter (?P (set (seen @ [?K x])) xs) [0..<length xs]))"
      by (rule Cons.IH [OF wxs])
    also have "\<dots> = Inr (u @ x # map (\<lambda>i. xs ! i) (filter (\<lambda>i. ?P (set seen) (x # xs) (Suc i)) [0..<length xs]))"
      by (simp only: feq append_assoc append_Cons append_Nil)
    also have "\<dots> = Inr (u @ x # map (\<lambda>i. (x # xs) ! i) (filter (?P (set seen) (x # xs)) (map Suc [0..<length xs])))"
      by (simp only: shift)
    also have "\<dots> = Inr (u @ map (\<lambda>i. (x # xs) ! i) (filter (?P (set seen) (x # xs)) (0 # map Suc [0..<length xs])))"
      using False by simp
    finally show ?thesis by (simp only: upt)
  qed
qed

lemma deduplicate_items_json_first_occurrences:
  assumes "list_all well_formed_item xs"
  shows "deduplicate_items_json so xs = Inr (first_occurrences_json xs)"
  using dedup_loop_json_first_occurrences [OF assms, of so "[]" "[]"]
  by (simp add: deduplicate_items_json_def first_occurrences_json_def)

lemma first_occurrences_json_subset: "set (first_occurrences_json xs) \<subseteq> set xs"
  by (auto simp add: first_occurrences_json_def)

lemma first_occurrences_json_typed:
  "first_occurrences_json (map finding_json fs) = map finding_json (first_occurrences fs)"
proof -
  have "filter (\<lambda>i. dedup_key (as_finding (map finding_json fs ! i))
                      \<notin> set (map (\<lambda>x. dedup_key (as_finding x)) (take i (map finding_json fs))))
          [0..<length fs]
        = filter (\<lambda>i. dedup_key (fs ! i) \<notin> set (map dedup_key (take i fs))) [0..<length fs]"
    by (intro filter_cong) (simp_all add: take_map as_finding_finding_json comp_def)
  then show ?thesis
    by (simp add: first_occurrences_json_def first_occurrences_def comp_def)
qed

lemma deduplicate_items_json_typed:
  "deduplicate_items_json so (map finding_json fs) = Inr (map finding_json (deduplicate_items fs))"
proof -
  have "list_all well_formed_item (map finding_json fs)"
    by (simp add: list_all_iff well_formed_finding_json)
  then show ?thesis
    by (simp add: deduplicate_items_json_first_occurrences first_occurrences_json_typed
          deduplicate_items_first_occurrences)
qed

lemma dedup_loop_json_subset:
  "dedup_loop_json so u seen xs = Inr ys \<Longrightarrow> set ys \<subseteq> set u \<union> set xs"
proof (induction xs arbitrary: u seen)
  case Nil
  then show ?case by simp
next
  case (Cons x xs)
  show ?case
  proof (cases "item_key so x")
    case (Inl e)
    with Cons.prems show ?thesis by simp
  next
    case (Inr key)
    show ?thesis
    proof (cases "list_all hashable (fst key)")
      case False
      with Inr Cons.prems show ?thesis by simp
    next
      case True
      show ?thesis
      proof (cases "list_ex (key_eq key) seen")
        case True
        with Inr \<open>list_all hashable (fst key)\<close> Cons.prems
        have "dedup_loop_json so u seen xs = Inr ys" by simp
        from Cons.IH [OF this] show ?thesis by auto
      next
        case False
        with Inr \<open>list_all hashable (fst key)\<close> Cons.prems
        have "dedup_loop_json so (u @ [x]) (seen @ [key]) xs = Inr ys" by simp
        from Cons.IH [OF this] show ?thesis by auto
      qed
    qed
  qed
qed

lemma deduplicate_items_json_subset:
  "deduplicate_items_json so xs = Inr ys \<Longrightarrow> set ys \<subseteq> set xs"
  using dedup_loop_json_subset [of so "[]" "[]" xs ys] by (simp add: deduplicate_items_json_def)

lemma combine_results_json_eq:
  assumes v: "\<And>c. c \<in> set categories \<Longrightarrow> map_of ai c = Some (JArr (items c))"
    and w: "\<And>c. c \<in> set categories \<Longrightarrow> list_all well_formed_item (items c)"
  shows "combine_results_json so rb ai =
     Inr (map (\<lambda>c. (c, first_occurrences_json (map finding_json (get_list rb c) @ items c)))
            categories)"
proof -
  have d: "deduplicate_items_json so (map finding_json (get_list rb c) @ items c) =
        Inr (first_occurrences_json (map finding_json (get_list rb c) @ items c))"
    if "c \<in> set categories" for c
    using w [OF that]
    by (intro deduplicate_items_json_first_occurrences)
       (auto simp add: list_all_iff well_formed_finding_json)
  have m: "map_of ai ''numerical_conflicts'' = Some (JArr (items ''numerical_conflicts''))"
    "map_of ai ''contradictory_statements'' = Some (JArr (items ''contradictory_statements''))"
    "map_of ai ''timeline_issues'' = Some (JArr (items ''timeline_issues''))"
    "map_of ai ''logical_inconsistencies'' = Some (JArr (items ''logical_inconsistencies''))"
    by (rule v, simp add: categories_def)+
  have e: "deduplicate_items_json so (map finding_json (get_list rb ''numerical_conflicts'') @ items ''numerical_conflicts'') =
        Inr (first_occurrences_json (map finding_json (get_list rb ''numerical_conflicts'') @ items ''numerical_conflicts''))"
    "deduplicate_items_json so (map finding_json (get_list rb ''contradictory_statements'') @ items ''contradictory_statements'') =
        Inr (first_occurrences_json (map finding_json (get_list rb ''contradictory_statements'') @ items ''contradictory_statements''))"
    "deduplicate_items_json so (map finding_json (get_list rb ''timeline_issues'') @ items ''timeline_issues'') =
        Inr (first_occurrences_json (map finding_json (get_list rb ''timeline_issues'') @ items ''timeline_issues''))"
    "deduplicate_items_json so (map finding_json (get_list rb ''logical_inconsistencies'') @ items ''logical_inconsistencies'') =
        Inr (first_occurrences_json (map finding_json (get_list rb ''logical_inconsistencies'') @ items ''logical_inconsistencies''))"
    by (rule d, simp add: categories_def)+
  show ?thesis
    by (simp add: combine_results_json_def categories_def Let_def m e)
qed

lemma count_items_json_well_formed:
  "list_all well_formed_item xs \<Longrightarrow> \<exists>r. count_items_json sc xs = Inr r"
proof (induction xs arbitrary: sc)
  case Nil
  show ?case by simp
next
  case (Cons x xs)
  from Cons.prems have wx: "well_formed_item x" and wxs: "list_all well_formed_item xs"
    by simp_all
  from wx obtain kvs where x: "x = JObj kvs"
    by (cases x) (simp_all add: well_formed_item_def)
  from wx have h: "hashable (case map_of kvs ''severity'' of None \<Rightarrow> JStr ''unknown'' | Some v \<Rightarrow> v)"
    unfolding x by (simp add: well_formed_item_def split: option.splits)
  from Cons.IH [OF wxs] h show ?case by (simp add: x)
qed

lemma count_severities_json_well_formed:
  "list_all (\<lambda>(c, items). list_all well_formed_item items) d \<Longrightarrow>
   \<exists>r. count_severities_json sc d = Inr r"
proof (induction d arbitrary: sc)
  case Nil
  show ?case by simp
next
  case (Cons p d)
  obtain c items where p: "p = (c, items)" by (cases p)
  from Cons.prems p have w: "list_all well_formed_item items"
    and r: "list_all (\<lambda>(c, items). list_all well_formed_item items) d" by simp_all
  from count_items_json_well_formed [OF w, of sc] obtain sc' where
    "count_items_json sc items = Inr sc'" by blast
  with Cons.IH [OF r, of sc'] show ?case by (simp add: p)
qed

lemma calculate_summary_json_well_formed:
  assumes "list_all (\<lambda>(c, items). list_all well_formed_item items) d"
  shows "\<exists>s. calculate_summary_json d slides_data = Inr s"
proof -
  from count_severities_json_well_formed [OF assms, of "[]"] obtain r where
    "count_severities_json [] d = Inr r" by blast
  then show ?thesis by (simp add: calculate_summary_json_def Let_def)
qed

lemma flatten_json_arrays:
  "flatten_json acc (map (\<lambda>c. (c, JArr (items c))) cs) = Inr (acc @ concat (map items cs))"
  by (induction cs arbitrary: acc) simp_all

lemma first_occurrences_json_well_formed:
  "list_all well_formed_item xs \<Longrightarrow> list_all well_formed_item (first_occurrences_json xs)"
  using first_occurrences_json_subset [of xs] by (auto simp add: list_all_iff)

lemma detect_inconsistencies_well_formed:
  assumes e: "extract_ai_results ai = Inr (map (\<lambda>c. (c, JArr (items c))) categories)"
    and w: "\<And>c. c \<in> set categories \<Longrightarrow> list_all well_formed_item (items c)"
  shows "\<exists>d. detect_inconsistencies so slides_data ai = Inr d
     \<and> reconciled_detection_result (Results (DetectionResult d)) slides_data items"
proof -
  let ?rb = "rule_based_detection slides_data"
  let ?X = "map (\<lambda>c. (c, first_occurrences_json (map finding_json (get_list ?rb c) @ items c)))
              categories"
  have m: "map_of (map (\<lambda>c. (c, JArr (items c))) categories) c = Some (JArr (items c))"
    if "c \<in> set categories" for c
    using that by (auto simp add: categories_def)
  have c: "combine_results_json so ?rb (map (\<lambda>c. (c, JArr (items c))) categories) = Inr ?X"
    using m w by (rule combine_results_json_eq)
  have "list_all well_formed_item (map finding_json (get_list ?rb c) @ items c)"
    if "c \<in> set categories" for c
    using w [OF that] by (auto simp add: list_all_iff well_formed_finding_json)
  then have "list_all well_formed_item
               (first_occurrences_json (map finding_json (get_list ?rb c) @ items c))"
    if "c \<in> set categories" for c
    using that by (intro first_occurrences_json_well_formed)
  then have "list_all (\<lambda>(c, items). list_all well_formed_item items) ?X"
    unfolding list_all_iff by auto
  from calculate_summary_json_well_formed [OF this, of slides_data] obtain s where
    s: "calculate_summary_json ?X slides_data = Inr s" by blast
  have l: "length (concat (map items categories)) = sum_list (map (\<lambda>c. length (items c)) categories)"
    by (simp add: length_concat comp_def)
  have "detect_inconsistencies so slides_data ai =
        Inr \<lparr>summary = s, inconsistencies = ?X,
             rule_based_count = length (flatten_inconsistencies ?rb),
             ai_based_count = length (concat (map items categories))\<rparr>"
    by (simp add: detect_inconsistencies_def Let_def e c s flatten_json_arrays)
  then show ?thesis
    by (simp add: reconciled_detection_result_def s l)
qed

lemma legacy_shape_items:
  assumes "legacy_shape (JObj kvs)" and "c \<in> set categories"
  shows "py_get (JObj kvs) c (JArr []) = Inr (JArr (legacy_items (JObj kvs) c))
         \<and> list_all well_formed_item (legacy_items (JObj kvs) c)"
proof -
  from assms have "case map_of kvs c of None \<Rightarrow> True
     | Some (JArr xs) \<Rightarrow> list_all well_formed_item xs | Some v \<Rightarrow> False"
    by (simp add: legacy_shape_def list_all_iff)
  then show ?thesis
    by (auto simp add: legacy_items_def split: option.splits json.splits)
qed

lemma extract_ai_results_legacy:
  assumes "legacy_shape report" and "ai_error ai = None"
    and "(case ai_inconsistencies ai of None \<Rightarrow> JObj [] | Some d \<Rightarrow> d) = report"
  shows "extract_ai_results ai = Inr (map (\<lambda>c. (c, JArr (legacy_items report c))) categories)"
proof -
  from assms(1) obtain kvs where r: "report = JObj kvs"
    by (cases report) (simp_all add: legacy_shape_def)
  have "py_get (JObj kvs) ''numerical_conflicts'' (JArr []) = Inr (JArr (legacy_items (JObj kvs) ''numerical_conflicts''))"
    "py_get (JObj kvs) ''contradictory_statements'' (JArr []) = Inr (JArr (legacy_items (JObj kvs) ''contradictory_statements''))"
    "py_get (JObj kvs) ''timeline_issues'' (JArr []) = Inr (JArr (legacy_items (JObj kvs) ''timeline_issues''))"
    "py_get (JObj kvs) ''logical_inconsistencies'' (JArr []) = Inr (JArr (legacy_items (JObj kvs) ''logical_inconsistencies''))"
    using legacy_shape_items [OF assms(1) [unfolded r]] by (simp_all add: categories_def)
  then show ?thesis
    using assms(2,3) by (simp add: extract_ai_results_def r categories_def Let_def del: py_get.simps)
qed

lemma detect_inconsistencies_legacy:
  assumes "ai_error ai = None"
    and l: "legacy_shape (case ai_inconsistencies ai of None \<Rightarrow> JObj [] | Some d \<Rightarrow> d)"
  shows "\<exists>d. detect_inconsistencies so slides_data ai = Inr d
     \<and> reconciled_detection_result (Results (DetectionResult d)) slides_data
         (legacy_items (case ai_inconsistencies ai of None \<Rightarrow> JObj [] | Some d \<Rightarrow> d))"
proof -
  let ?report = "case ai_inconsistencies ai of None \<Rightarrow> JObj [] | Some d \<Rightarrow> d"
  have e: "extract_ai_results ai = Inr (map (\<lambda>c. (c, JArr (legacy_items ?report c))) categories)"
    using l assms(1) by (rule extract_ai_results_legacy) simp
  obtain kvs where k: "?report = JObj kvs"
    using l by (cases ?report) (simp_all add: legacy_shape_def)
  have w: "list_all well_formed_item (legacy_items ?report c)" if "c \<in> set categories" for c
    using legacy_shape_items [OF l [unfolded k] that] by (simp add: k)
  from e w show ?thesis by (rule detect_inconsistencies_well_formed)
qed

lemma get_list_dict_set: "get_list (dict_set d k v) c = (if k = c then v else get_list d c)"
  by (induction d) (auto simp add: get_list_def)

lemma combine_loop_json_other:
  "combine_loop_json so rb ai combined cs = Inr result \<Longrightarrow> c \<notin> set cs \<Longrightarrow>
   get_list result c = get_list combined c"
proof (induction cs arbitrary: combined)
  case Nil
  then show ?case by simp
next
  case (Cons category rest)
  from Cons.prems(1) obtain xs unique_items where
    "combine_loop_json so rb ai (dict_set combined category unique_items) rest = Inr result"
    by (auto simp add: Let_def split: json.splits sum.splits)
  from Cons.IH [OF this] Cons.prems(2) show ?case by (auto simp add: get_list_dict_set)
qed

lemma combine_loop_json_at:
  "combine_loop_json so rb ai combined cs = Inr result \<Longrightarrow> c \<in> set cs \<Longrightarrow> distinct cs \<Longrightarrow>
   \<exists>xs. (case map_of ai c of None \<Rightarrow> JArr [] | Some v \<Rightarrow> v) = JArr xs
      \<and> deduplicate_items_json so (map finding_json (get_list rb c) @ xs) = Inr (get_list result c)"
proof (induction cs arbitrary: combined)
  case Nil
  then show ?case by simp
next
  case (Cons category rest)
  from Cons.prems(1) obtain xs unique_items where
    a: "(case map_of ai category of None \<Rightarrow> JArr [] | Some v \<Rightarrow> v) = JArr xs"
    and d: "deduplicate_items_json so (map finding_json (get_list rb category) @ xs) = Inr unique_items"
    and r: "combine_loop_json so rb ai (dict_set combined category unique_items) rest = Inr result"
    by (auto simp add: Let_def split: json.splits sum.splits)
  show ?case
  proof (cases "c = category")
    case True
    with Cons.prems(3) have "c \<notin> set rest" by simp
    from combine_loop_json_other [OF r this]
    have "get_list result c = unique_items" by (simp add: get_list_dict_set True)
    with a d True show ?thesis by simp
  next
    case False
    with Cons.prems have "c \<in> set rest" "distinct rest" by simp_all
    from Cons.IH [OF r this] show ?thesis .
  qed
qed

lemma rule_based_detection_shape:
  "rule_based_detection slides_data =
     [(''numerical_conflicts'', detect_numerical_conflicts slides_data),
      (''contradictory_statements'', detect_contradictory_statements slides_data),
      (''timeline_issues'', detect_timeline_issues slides_data),
      (''logical_inconsistencies'', [])]"
  by (simp add: rule_based_detection_def get_empty_inconsistencies_def Let_def)

lemma detect_inconsistencies_logical:
  assumes "detect_inconsistencies so slides_data ai = Inr d"
  shows "\<exists>ai_results xs. extract_ai_results ai = Inr ai_results
     \<and> map_of ai_results ''logical_inconsistencies'' = Some (JArr xs)
     \<and> set (get_list (inconsistencies d) ''logical_inconsistencies'') \<subseteq> set xs"
proof -
  from assms obtain ai_results combined where
    e: "extract_ai_results ai = Inr ai_results"
    and c: "combine_results_json so (rule_based_detection slides_data) ai_results = Inr combined"
    and i: "inconsistencies d = combined"
    by (auto simp add: detect_inconsistencies_def Let_def split: sum.splits)
  from e obtain v where m: "map_of ai_results ''logical_inconsistencies'' = Some v"
    by (auto simp add: extract_ai_results_def inconsistencies_json_def
          get_empty_inconsistencies_def Let_def split: if_splits sum.splits)
  from combine_loop_json_at [OF c [unfolded combine_results_json_def],
         of "''logical_inconsistencies''"]
  obtain xs where x: "v = JArr xs"
    and "deduplicate_items_json so
           (map finding_json (get_list (rule_based_detection slides_data) ''logical_inconsistencies'') @ xs)
         = Inr (get_list combined ''logical_inconsistencies'')"
    by (auto simp add: categories_def m)
  then have "deduplicate_items_json so xs = Inr (get_list combined ''logical_inconsistencies'')"
    by (simp add: rule_based_detection_shape get_list_def)
  from deduplicate_items_json_subset [OF this] e m x i show ?thesis by simp
qed

lemma inconsistencies_json_empty:
  "inconsistencies_json get_empty_inconsistencies = map (\<lambda>c. (c, JArr [])) categories"
  by (simp add: inconsistencies_json_def get_empty_inconsistencies_def categories_def)

lemma extract_ai_results_error:
  "ai_error ai \<noteq> None \<Longrightarrow>
   extract_ai_results ai = Inr (inconsistencies_json get_empty_inconsistencies)"
  by (simp add: extract_ai_results_def)

lemma extract_ai_results_empty:
  "extract_ai_results empty_ai_analysis = Inr (inconsistencies_json get_empty_inconsistencies)"
  by (simp add: extract_ai_results_def empty_ai_analysis_def inconsistencies_json_def
        get_empty_inconsistencies_def)

lemma analyze_error:
  "api_key = None \<or> api_key = Some [] \<or> isl api_result \<Longrightarrow>
   ai_error (analyze_inconsistencies api_key lib api_result slides_data) \<noteq> None"
  by (cases api_result) (auto simp add: analyze_inconsistencies_def error_result_def)

lemma detect_error_same:
  assumes "ai_error ai \<noteq> None"
  shows "detect_inconsistencies so slides_data empty_ai_analysis =
         detect_inconsistencies so slides_data ai"
  by (simp add: detect_inconsistencies_def extract_ai_results_error [OF assms]
        extract_ai_results_empty)

lemma detect_error:
  assumes "ai_error ai \<noteq> None"
  shows "\<exists>d. detect_inconsistencies so slides_data ai = Inr d
     \<and> reconciled_detection_result (Results (DetectionResult d)) slides_data (\<lambda>c. [])"
  by (rule detect_inconsistencies_well_formed)
     (simp_all add: extract_ai_results_error [OF assms] inconsistencies_json_empty)

lemma main_results_error:
  assumes "ai_error ai \<noteq> None"
  shows "main_results so slides_data ai =
     (case detect_inconsistencies so slides_data ai of
        Inl e \<Rightarrow> Inl e | Inr d \<Rightarrow> Inr (DetectionResult d))"
  using assms by (simp add: main_results_def detect_error_same [OF assms])

lemma reconciled_rules_only:
  assumes "reconciled_detection_result (Results (DetectionResult d)) slides_data (\<lambda>c. [])"
  shows "inconsistencies d =
        map (\<lambda>category. (category,
               map finding_json (deduplicate_items (get_list (rule_based_detection slides_data) category))))
          categories"
    and "ai_based_count d = 0"
  using assms
  by (simp_all add: reconciled_detection_result_def first_occurrences_json_typed
        deduplicate_items_first_occurrences)

text \<open>
  On findings that are records, reconciliation and summary of the items are the typed
  functions.
\<close>

lemma map_of_inconsistencies_json:
  "map_of (inconsistencies_json ai) c = map_option (\<lambda>items. JArr (map finding_json items)) (map_of ai c)"
  by (induction ai) (auto simp add: inconsistencies_json_def)

lemma combine_results_json_typed:
  "combine_results_json so rule_based (inconsistencies_json ai_based) =
     Inr (map (\<lambda>(category, items). (category, map finding_json items))
            (combine_results rule_based ai_based))"
proof -
  have a: "(case map_of (inconsistencies_json ai_based) c of None \<Rightarrow> JArr [] | Some v \<Rightarrow> v)
           = JArr (map finding_json (get_list ai_based c))" for c
    by (simp add: map_of_inconsistencies_json get_list_def split: option.splits)
  have d: "deduplicate_items_json so
             (map finding_json (get_list rule_based c) @ map finding_json (get_list ai_based c))
           = Inr (map finding_json
                    (deduplicate_items (get_list rule_based c @ get_list ai_based c)))" for c
    using deduplicate_items_json_typed [of so "get_list rule_based c @ get_list ai_based c"]
    by simp
  show ?thesis
    by (simp add: combine_results_json_def combine_results_eq categories_def Let_def a d)
qed

lemma dd_incr_json_typed:
  "dd_incr_json (map (\<lambda>(k, n). (JStr k, n)) sc) (JStr s)
     = map (\<lambda>(k, n). (JStr k, n)) (dd_incr sc s)"
  by (induction sc) (auto simp add: py_eq_def)

lemma severity_finding_json:
  "py_get (finding_json f) ''severity'' (JStr ''unknown'') = Inr (JStr (severity_of f))"
  by (cases "slide_numbers f"; cases "description f"; cases "severity f"; cases "type f")
     (simp_all add: finding_json_def severity_of_def)

lemma count_items_json_typed:
  "count_items_json (map (\<lambda>(k, n). (JStr k, n)) sc) (map finding_json items)
     = Inr (map (\<lambda>(k, n). (JStr k, n)) (count_items sc items))"
proof (induction items arbitrary: sc)
  case Nil
  show ?case by simp
next
  case (Cons f items)
  show ?case
    using Cons.IH [of "dd_incr sc (severity_of f)"]
    by (simp add: severity_finding_json dd_incr_json_typed del: py_get.simps)
qed

lemma count_severities_json_typed:
  "count_severities_json (map (\<lambda>(k, n). (JStr k, n)) sc)
     (map (\<lambda>(category, items). (category, map finding_json items)) d)
     = Inr (map (\<lambda>(k, n). (JStr k, n)) (count_severities sc d))"
proof (induction d arbitrary: sc)
  case Nil
  show ?case by simp
next
  case (Cons p d)
  obtain c items where p: "p = (c, items)" by (cases p)
  show ?case
    using Cons.IH [of "count_items sc items"]
    by (simp add: p count_items_json_typed)
qed

lemma calculate_summary_json_typed:
  "calculate_summary_json (map (\<lambda>(category, items). (category, map finding_json items)) d)
     slides_data =
   Inr \<lparr>total_slides = total_slides (calculate_summary d slides_data),
        slides_analyzed = slides_analyzed (calculate_summary d slides_data),
        inconsistencies_found = inconsistencies_found (calculate_summary d slides_data),
        severity_breakdown =
          map (\<lambda>(k, n). (JStr k, n)) (severity_breakdown (calculate_summary d slides_data)),
        category_breakdown = category_breakdown (calculate_summary d slides_data)\<rparr>"
  using count_severities_json_typed [of "[]" d]
  by (simp add: calculate_summary_json_def calculate_summary_def Let_def comp_def split_def)

text \<open>
  Items and values that are not well formed: a slide number that is a list cannot be
  hashed, a category that is no list cannot be appended to a list, a severity that is a
  list cannot be counted; equal numbers are one severity label; a report that is a list
  has no \<^verbatim>\<open>.get\<close>.
\<close>

lemma ill_formed_examples:
  "deduplicate_items_json (\<lambda>v. Inr (json_items v))
     [JObj [(''slide_numbers'', JArr [JArr [JInt 1]])]] = Inl TypeError"
  "combine_results_json so [] [(''numerical_conflicts'', JStr ''none'')] = Inl TypeError"
  "calculate_summary_json [(''numerical_conflicts'', [JObj [(''severity'', JArr [])]])] slides_data
     = Inl TypeError"
  "count_items_json [] [JObj [(''severity'', JInt 1)], JObj [(''severity'', JBool True)],
                        JObj [(''severity'', JFloat 1)], JObj []]
     = Inr [(JInt 1, 3), (JStr ''unknown'', 1)]"
  "flatten_json [] [(''numerical_conflicts'', JStr ''ab''), (''timeline_issues'', JObj [(''k'', JNull)])]
     = Inr [JStr ''a'', JStr ''b'', JStr ''k'']"
  "flatten_json [] [(''numerical_conflicts'', JNull)] = Inl TypeError"
  "extract_ai_results (empty_ai_analysis\<lparr>ai_inconsistencies := Some (JArr [])\<rparr>)
     = Inl AttributeError"
  by (simp_all add: deduplicate_items_json_def item_key_def sorted_json_def json_items_def
        combine_results_json_def categories_def get_list_def calculate_summary_json_def
        py_eq_def extract_ai_results_def empty_ai_analysis_def)

subsection \<open>Rule-based detection and AI failure\<close>

text \<open>
  Claim C10. The rule-based detector leaves \<open>logical_inconsistencies\<close> empty: it fills
  the other three of the four categories only. So the logical inconsistencies of a
  combined result are the deduplicated AI findings of that category, and when a
  detection run returns a result, each logical inconsistency of the result is one of the
  items that the AI analysis holds under that category. The run returns a result when
  the analysis is a tagged error and when what it holds has the legacy shape.
\<close>

theorem rule_based_logical_empty:
  "map_of (rule_based_detection slides_data) ''logical_inconsistencies'' = Some []
   \<and> map fst (rule_based_detection slides_data) = categories
   \<and> get_list (combine_results (rule_based_detection slides_data) ai_based)
        ''logical_inconsistencies''
      = deduplicate_items (get_list ai_based ''logical_inconsistencies'')
   \<and> (detect_inconsistencies sorted_other slides_data ai = Inr d \<longrightarrow>
        (\<exists>ai_results ai_items.
           extract_ai_results ai = Inr ai_results
           \<and> map_of ai_results ''logical_inconsistencies'' = Some (JArr ai_items)
           \<and> set (get_list (inconsistencies d) ''logical_inconsistencies'') \<subseteq> set ai_items))
   \<and> (ai_error ai \<noteq> None
        \<or> legacy_shape (case ai_inconsistencies ai of None \<Rightarrow> JObj [] | Some report \<Rightarrow> report)
       \<longrightarrow> (\<exists>result. detect_inconsistencies sorted_other slides_data ai = Inr result))"
proof -
  have a: "map_of (rule_based_detection slides_data) ''logical_inconsistencies'' = Some []"
    by (simp add: rule_based_detection_shape)
  have b: "map fst (rule_based_detection slides_data) = categories"
    by (simp add: rule_based_detection_shape categories_def)
  have c: "get_list (combine_results (rule_based_detection slides_data) ai_based)
        ''logical_inconsistencies''
      = deduplicate_items (get_list ai_based ''logical_inconsistencies'')"
    by (simp add: combine_results_eq categories_def get_list_def rule_based_detection_shape)
  have r: "\<exists>result. detect_inconsistencies sorted_other slides_data ai = Inr result"
    if "ai_error ai \<noteq> None
        \<or> legacy_shape (case ai_inconsistencies ai of None \<Rightarrow> JObj [] | Some report \<Rightarrow> report)"
  proof (cases "ai_error ai = None")
    case True
    with that detect_inconsistencies_legacy [of ai sorted_other slides_data]
    show ?thesis by blast
  next
    case False
    with detect_error [of ai sorted_other slides_data] show ?thesis by blast
  qed
  from a b c r detect_inconsistencies_logical [of sorted_other slides_data ai d]
  show ?thesis by blast
qed

theorem rule_based_logical_empty_witness:
  "get_list (combine_results (rule_based_detection revenue_slides)
               [(''logical_inconsistencies'', [finding_C, finding_C])])
     ''logical_inconsistencies'' = [finding_C]
   \<and> detect_inconsistencies sorted_not_consulted revenue_slides logical_analysis
       = Inr logical_result
   \<and> get_list (inconsistencies logical_result) ''logical_inconsistencies''
       = [finding_json finding_C]
   \<and> set (get_list (inconsistencies logical_result) ''logical_inconsistencies'')
       \<subseteq> set [finding_json finding_C, finding_json finding_C]"
proof -
  have t: "deduplicate_items (get_list [(''logical_inconsistencies'', [finding_C, finding_C])]
          ''logical_inconsistencies'') = [finding_C]"
    by (simp add: get_list_def deduplicate_items_def dedup_loop_Cons)
  have d: "detect_inconsistencies sorted_not_consulted revenue_slides logical_analysis
       = Inr logical_result"
    by code_simp
  have e: "extract_ai_results logical_analysis =
       Inr [(''numerical_conflicts'', JArr []), (''contradictory_statements'', JArr []),
            (''timeline_issues'', JArr []),
            (''logical_inconsistencies'', JArr [finding_json finding_C, finding_json finding_C])]"
    by code_simp
  have g: "get_list (inconsistencies logical_result) ''logical_inconsistencies''
       = [finding_json finding_C]"
    by (simp add: logical_result_def get_list_def)
  from rule_based_logical_empty [of revenue_slides
         "[(''logical_inconsistencies'', [finding_C, finding_C])]"
         sorted_not_consulted logical_analysis logical_result] d t e
  have "get_list (combine_results (rule_based_detection revenue_slides)
               [(''logical_inconsistencies'', [finding_C, finding_C])])
     ''logical_inconsistencies'' = [finding_C]
     \<and> set (get_list (inconsistencies logical_result) ''logical_inconsistencies'')
       \<subseteq> set [finding_json finding_C, finding_json finding_C]"
    by auto
  with d g show ?thesis by blast
qed

text \<open>
  Claim C5, as amended. When the AI analysis is a tagged error, which is what a missing
  API key and a failure of the API call give, the detection run returns a result and
  raises nothing, and the run yields that result: the AI findings are the empty legacy
  set, each category of the result is the deduplicated rule-based list, and the count of
  AI findings is 0.
\<close>

theorem ai_error_rule_based_only:
  "(ai_error ai \<noteq> None \<longrightarrow>
      (\<exists>d. detect_inconsistencies sorted_other slides_data ai = Inr d
         \<and> main_results sorted_other slides_data ai = Inr (DetectionResult d)
         \<and> inconsistencies d =
             map (\<lambda>category. (category,
                    map finding_json
                      (deduplicate_items (get_list (rule_based_detection slides_data) category))))
               categories
         \<and> ai_based_count d = 0)
      \<and> extract_ai_results ai = Inr (inconsistencies_json get_empty_inconsistencies))
   \<and> (api_key = None \<or> api_key = Some [] \<or> isl api_result \<longrightarrow>
        ai_error (analyze_inconsistencies api_key lib api_result slides_data) \<noteq> None)"
proof -
  have "(\<exists>d. detect_inconsistencies sorted_other slides_data ai = Inr d
         \<and> main_results sorted_other slides_data ai = Inr (DetectionResult d)
         \<and> inconsistencies d =
             map (\<lambda>category. (category,
                    map finding_json
                      (deduplicate_items (get_list (rule_based_detection slides_data) category))))
               categories
         \<and> ai_based_count d = 0)
      \<and> extract_ai_results ai = Inr (inconsistencies_json get_empty_inconsistencies)"
    if err: "ai_error ai \<noteq> None"
  proof -
    from detect_error [OF err, of sorted_other slides_data] obtain d where
      d: "detect_inconsistencies sorted_other slides_data ai = Inr d"
      and r: "reconciled_detection_result (Results (DetectionResult d)) slides_data (\<lambda>c. [])"
      by blast
    have m: "main_results sorted_other slides_data ai = Inr (DetectionResult d)"
      by (simp add: main_results_error [OF err] d)
    from d m reconciled_rules_only [OF r] extract_ai_results_error [OF err]
    show ?thesis by blast
  qed
  with analyze_error [of api_key api_result lib slides_data] show ?thesis by blast
qed

theorem ai_error_rule_based_only_witness:
  "main_results sorted_not_consulted revenue_slides (error_result ''Connection timed out'') =
     Inr (DetectionResult
       \<lparr>summary = \<lparr>total_slides = 2, slides_analyzed = 2, inconsistencies_found = 1,
                   severity_breakdown = [(JStr ''high'', 1)],
                   category_breakdown = [(''numerical_conflicts'', 1), (''contradictory_statements'', 0),
                                         (''timeline_issues'', 0), (''logical_inconsistencies'', 0)]\<rparr>,
        inconsistencies = [(''numerical_conflicts'', [finding_json finding_A]),
                           (''contradictory_statements'', []),
                           (''timeline_issues'', []), (''logical_inconsistencies'', [])],
        rule_based_count = 1, ai_based_count = 0\<rparr>)"
proof -
  have e: "ai_error (error_result ''Connection timed out'') \<noteq> None"
    by (simp add: error_result_def)
  have d: "detect_inconsistencies sorted_not_consulted revenue_slides
             (error_result ''Connection timed out'') =
       Inr \<lparr>summary = \<lparr>total_slides = 2, slides_analyzed = 2, inconsistencies_found = 1,
                   severity_breakdown = [(JStr ''high'', 1)],
                   category_breakdown = [(''numerical_conflicts'', 1), (''contradictory_statements'', 0),
                                         (''timeline_issues'', 0), (''logical_inconsistencies'', 0)]\<rparr>,
        inconsistencies = [(''numerical_conflicts'', [finding_json finding_A]),
                           (''contradictory_statements'', []),
                           (''timeline_issues'', []), (''logical_inconsistencies'', [])],
        rule_based_count = 1, ai_based_count = 0\<rparr>"
    by code_simp
  from ai_error_rule_based_only [of "error_result ''Connection timed out''"
         sorted_not_consulted revenue_slides] e
  obtain d' where
    "detect_inconsistencies sorted_not_consulted revenue_slides
       (error_result ''Connection timed out'') = Inr d'"
    "main_results sorted_not_consulted revenue_slides (error_result ''Connection timed out'')
       = Inr (DetectionResult d')"
    by blast
  then show ?thesis by (simp only: d sum.inject)
qed

subsection \<open>Unparseable responses\<close>

lemma try_loads_fail:
  assumes "isl (json_loads lib s)" and "isl rest \<or> rest = Inr None"
  shows "isl (try_loads lib s rest) \<or> try_loads lib s rest = Inr None"
  using assms by (auto simp add: try_loads_def split: sum.splits py_exception.splits)

lemma try_matches_fail:
  assumes "\<forall>s \<in> set ms. isl (json_loads lib s)" and "isl rest \<or> rest = Inr None"
  shows "isl (try_matches lib ms rest) \<or> try_matches lib ms rest = Inr None"
  using assms by (induction ms) (simp_all add: try_loads_fail)

lemma try_loads_decode:
  assumes "json_loads lib s = Inl JSONDecodeError"
  shows "try_loads lib s rest = rest"
  using assms by (simp add: try_loads_def)

lemma try_matches_decode:
  assumes "\<forall>s \<in> set ms. json_loads lib s = Inl JSONDecodeError"
  shows "try_matches lib ms rest = rest"
  using assms by (induction ms) (simp_all add: try_loads_decode)

lemma robust_fail:
  assumes "\<forall>s \<in> set (attempts lib txt). isl (json_loads lib s)"
  shows "isl (robust_json_parse lib txt) \<or> robust_json_parse lib txt = Inr None"
proof -
  let ?s5 = "try_loads lib (fix_common_json_issues lib txt) (Inr None)"
  let ?s4 = "try_loads lib (clean_fences txt) ?s5"
  let ?s3 = "try_matches lib (findall_objects lib txt) ?s4"
  have 5: "isl ?s5 \<or> ?s5 = Inr None"
    using assms by (intro try_loads_fail) (simp_all add: attempts_def)
  have 4: "isl ?s4 \<or> ?s4 = Inr None"
    using assms 5 by (intro try_loads_fail) (simp_all add: attempts_def)
  have 3: "isl ?s3 \<or> ?s3 = Inr None"
    using assms 4 by (intro try_matches_fail) (simp_all add: attempts_def)
  have 2: "isl (case findall_fenced lib txt of [] \<Rightarrow> ?s3 | m # ms \<Rightarrow> try_loads lib m ?s3)
           \<or> (case findall_fenced lib txt of [] \<Rightarrow> ?s3 | m # ms \<Rightarrow> try_loads lib m ?s3) = Inr None"
  proof (cases "findall_fenced lib txt")
    case Nil
    with 3 show ?thesis by simp
  next
    case (Cons m ms)
    with assms have "isl (json_loads lib m)" by (simp add: attempts_def)
    from try_loads_fail [OF this 3] Cons show ?thesis by simp
  qed
  have 1: "isl (json_loads lib txt)" using assms by (simp add: attempts_def)
  from try_loads_fail [OF 1 2] show ?thesis by (simp add: robust_json_parse_def Let_def)
qed

lemma robust_decode:
  assumes "\<forall>s \<in> set (attempts lib txt). json_loads lib s = Inl JSONDecodeError"
  shows "robust_json_parse lib txt = Inr None"
proof -
  have f: "findall_fenced lib txt \<noteq> [] \<Longrightarrow>
           json_loads lib (hd (findall_fenced lib txt)) = Inl JSONDecodeError"
    using assms by (cases "findall_fenced lib txt") (simp_all add: attempts_def)
  have o: "\<forall>s \<in> set (findall_objects lib txt). json_loads lib s = Inl JSONDecodeError"
    using assms by (simp add: attempts_def)
  have r: "json_loads lib txt = Inl JSONDecodeError"
          "json_loads lib (clean_fences txt) = Inl JSONDecodeError"
          "json_loads lib (fix_common_json_issues lib txt) = Inl JSONDecodeError"
    using assms by (simp_all add: attempts_def)
  show ?thesis
    using f by (cases "findall_fenced lib txt")
      (simp_all add: robust_json_parse_def Let_def try_loads_decode r try_matches_decode [OF o])
qed

text \<open>
  Claim C8. When every call of the JSON parser that the strategies make on a response
  text fails, parsing the response returns the default empty intelligence report; no
  exception leaves \<^verbatim>\<open>_parse_analysis_response\<close>, whose result is a report for every
  response. When the calls fail with \<^verbatim>\<open>JSONDecodeError\<close>, \<^verbatim>\<open>_robust_json_parse\<close>
  returns \<^verbatim>\<open>None\<close>.
\<close>

theorem unparseable_gives_empty_report:
  "((\<forall>s \<in> set (attempts lib txt). json_loads lib s = Inl JSONDecodeError)
      \<longrightarrow> robust_json_parse lib txt = Inr None)
   \<and> ((\<forall>s \<in> set (attempts lib txt). isl (json_loads lib s))
      \<longrightarrow> parse_analysis_response lib \<lparr>candidates = Some (WellFormed txt # cs)\<rparr>
          = get_empty_intelligence_report)"
proof -
  have "parse_analysis_response lib \<lparr>candidates = Some (WellFormed txt # cs)\<rparr>
          = get_empty_intelligence_report"
    if "\<forall>s \<in> set (attempts lib txt). isl (json_loads lib s)"
    using robust_fail [OF that]
    by (auto simp add: parse_analysis_response_def parse_body_def
          extract_intelligence_from_text_def split: sum.splits)
  with robust_decode [of lib "txt"] show ?thesis by blast
qed

theorem unparseable_gives_empty_report_witness:
  "robust_json_parse unparseable_lib ''gibberish'' = Inr None
   \<and> parse_analysis_response unparseable_lib gibberish_response = get_empty_intelligence_report"
proof -
  have a: "\<forall>s \<in> set (attempts unparseable_lib ''gibberish''). json_loads unparseable_lib s = Inl JSONDecodeError"
    by (simp add: unparseable_lib_def)
  then have b: "\<forall>s \<in> set (attempts unparseable_lib ''gibberish''). isl (json_loads unparseable_lib s)"
    by simp
  from unparseable_gives_empty_report [of unparseable_lib "''gibberish''" "[]"] a b
  show ?thesis by (simp add: gibberish_response_def)
qed

text \<open>
  Claim C5 as it was stated fails for a total parse failure. A response that no
  strategy can parse is no tagged error: the analysis carries the default intelligence
  report, and the run passes that report on instead of the rule-based findings.
\<close>

theorem parse_failure_not_error_counterexample:
  "ai_error (analyze_inconsistencies (Some ''key'') unparseable_lib (Inr gibberish_response)
               revenue_slides) = None
   \<and> analysis_run (Some ''key'') sorted_not_consulted unparseable_lib (Inr gibberish_response)
        revenue_slides
      = Inr (IntelligenceReport get_empty_intelligence_report)"
  by code_simp

text \<open>
  What parsing returns for values that are no dictionary, and for a dictionary that
  holds \<^verbatim>\<open>null\<close>.
\<close>

lemma parsed_values_examples:
  "read_parsed (JObj [(''intelligence_report'', JNull)]) = Inr JNull"
  "read_parsed (JArr [JStr ''intelligence_report'']) = Inl TypeError"
  "read_parsed (JArr [JInt 1]) = Inl AttributeError"
  "read_parsed (JStr ''text'') = Inl AttributeError"
  "read_parsed (JInt 5) = Inl TypeError"
  "read_parsed (JObj [(''timeline_issues'', JNull)]) =
     Inr (JObj [(''numerical_conflicts'', JArr []), (''contradictory_statements'', JArr []),
                (''timeline_issues'', JNull), (''logical_inconsistencies'', JArr [])])"
  "parse_analysis_response (lib_parsing ''[1]'' (JArr [JInt 1])) \<lparr>candidates = Some [WellFormed ''[1]'']\<rparr>
     = get_empty_intelligence_report"
  "parse_analysis_response (lib_parsing ''{}'' (JObj [])) \<lparr>candidates = Some [WellFormed ''{}'']\<rparr>
     = get_empty_intelligence_report"
  "parse_body lib \<lparr>candidates = None\<rparr> = Inr get_empty_intelligence_report"
  "parse_body lib \<lparr>candidates = Some []\<rparr> = Inr get_empty_intelligence_report"
  "parse_body lib \<lparr>candidates = Some [Malformed]\<rparr> = Inl OtherException"
  by (simp_all add: read_parsed_def parse_analysis_response_def parse_body_def
        robust_json_parse_def try_loads_def lib_parsing_def extract_intelligence_from_text_def)

subsection \<open>The shape of a run's result\<close>











text \<open>
  Reports that have neither shape: a report that is \<^verbatim>\<open>null\<close> and a finding whose
  description is \<^verbatim>\<open>null\<close> raise in the detection run, and the program exits with status
  1. The last lemma is the slide range on an example.
\<close>

lemma null_report_exits:
  "parse_analysis_response null_report_lib \<lparr>candidates = Some [WellFormed null_report_text]\<rparr>
     = JNull
   \<and> main_run True (Some ''key'') dated_slides None None sorted_not_consulted null_report_lib
       (Inr \<lparr>candidates = Some [WellFormed null_report_text]\<rparr>) = SysExit 1"
  by code_simp

lemma null_description_exits:
  "main_run True (Some ''key'') dated_slides None None sorted_not_consulted null_description_lib
     (Inr \<lparr>candidates = Some [WellFormed null_description_text]\<rparr>) = SysExit 1"
  by code_simp

lemma slide_range_example:
  "select_slides (Some 2) None dated_slides = [dated_slides ! 1]
   \<and> select_slides None (Some 0) dated_slides = dated_slides"
  by code_simp

subsection \<open>The contradictory statement scan\<close>

lemma dict_set_new: "k \<notin> fst ` set d \<Longrightarrow> dict_set d k v = d @ [(k, v)]"
  by (induction d k v rule: dict_set.induct) auto

lemma collect_text_acc:
  "distinct (map fst all_text @ map fst slides_data) \<Longrightarrow>
   collect_text all_text slides_data =
     all_text @ map (\<lambda>(slide_num, sd). (slide_num, slide_text_of sd)) slides_data"
proof (induction all_text slides_data rule: collect_text.induct)
  case (1 all_text)
  show ?case by simp
next
  case (2 all_text slide_num sd rest)
  from "2.prems" have new: "slide_num \<notin> fst ` set all_text" by auto
  from "2.prems" have "distinct (map fst (all_text @ [(slide_num, slide_text_of sd)]) @ map fst rest)"
    by auto
  then have "distinct (map fst (dict_set all_text slide_num (slide_text_of sd)) @ map fst rest)"
    by (simp only: dict_set_new [OF new])
  from "2.IH" [OF this] show ?case by (simp add: dict_set_new [OF new])
qed

lemma collect_text_eq:
  "distinct (map fst slides_data) \<Longrightarrow>
   collect_text [] slides_data = map (\<lambda>(slide_num, sd). (slide_num, slide_text_of sd)) slides_data"
  using collect_text_acc [of "[]" slides_data] by simp

lemma slides_with_acc:
  "slides_with pattern1 pattern2 (with1, with2) all_text =
     (with1 @ map fst (filter (\<lambda>(slide_num, t). contains pattern1 t) all_text),
      with2 @ map fst (filter (\<lambda>(slide_num, t). contains pattern2 t) all_text))"
  by (induction pattern1 pattern2 "(with1, with2)" all_text arbitrary: with1 with2
        rule: slides_with.induct) auto

lemma check_patterns_acc:
  "check_patterns all_text contradictions patterns =
     contradictions @
     concat (map (\<lambda>(pattern1, pattern2, context_label).
        let with1 = map fst (filter (\<lambda>(slide_num, t). contains pattern1 t) all_text);
            with2 = map fst (filter (\<lambda>(slide_num, t). contains pattern2 t) all_text)
        in if with1 \<noteq> [] \<and> with2 \<noteq> []
           then [contradiction pattern1 pattern2 context_label (with1 @ with2)] else [])
       patterns)"
  by (induction all_text contradictions patterns rule: check_patterns.induct)
     (simp_all add: slides_with_acc Let_def)

lemma filter_concat_distinct:
  assumes "distinct (map D ps)" and "p \<in> set ps"
    and "\<And>q f. f \<in> set (g q) \<Longrightarrow> F f = D q"
  shows "filter (\<lambda>f. F f = D p) (concat (map g ps)) = g p"
  using assms(1,2)
proof (induction ps)
  case Nil
  then show ?case by simp
next
  case (Cons q ps)
  have all: "filter (\<lambda>f. F f = D r) (g r) = g r" for r
    using assms(3) [of _ r] by (simp add: filter_id_conv)
  have none: "filter (\<lambda>f. F f = D r) (g r') = []" if "D r' \<noteq> D r" for r r'
    using assms(3) [of _ r'] that by (auto simp add: filter_empty_conv)
  have none': "filter (\<lambda>f. F f = D r) (concat (map g rs)) = []" if "D r \<notin> D ` set rs" for r rs
    using that by (induction rs) (auto simp add: none)
  show ?case
  proof (cases "p = q")
    case True
    with Cons.prems have "D p \<notin> D ` set ps" by auto
    with True show ?thesis by (simp add: all none')
  next
    case False
    with Cons.prems have "p \<in> set ps" "D q \<noteq> D p" by auto
    with Cons show ?thesis by (simp add: none)
  qed
qed

lemma descriptions_distinct:
  "distinct (map (\<lambda>(pattern1, pattern2, context_label).
       contradiction_description pattern1 pattern2 context_label) contradiction_patterns)"
  by code_simp

lemma contains_sublist: "contains w s \<longleftrightarrow> sublist w s"
  by (induction s) (auto simp add: sublist_Cons_right)

lemma upper_case_letters:
  "\<forall>c \<in> set ''ABCDEFGHIJKLMNOPQRSTUVWXYZ''. lower_char c = char_of (of_char c + (32::nat))"
  by code_simp

lemma lower_char_other:
  assumes "c \<notin> set ''ABCDEFGHIJKLMNOPQRSTUVWXYZ''"
  shows "lower_char c = c"
proof -
  have "map_of (zip ''ABCDEFGHIJKLMNOPQRSTUVWXYZ'' ''abcdefghijklmnopqrstuvwxyz'') c = None"
    using assms by (intro map_of_zip_is_None [THEN iffD2]) simp_all
  then show ?thesis by (simp add: lower_char_def)
qed

lemma lower_char_shift:
  "lower_char c =
     (if c \<in> set ''ABCDEFGHIJKLMNOPQRSTUVWXYZ'' then char_of (of_char c + (32::nat)) else c)"
proof (cases "c \<in> set ''ABCDEFGHIJKLMNOPQRSTUVWXYZ''")
  case True
  with upper_case_letters have "lower_char c = char_of (of_char c + (32::nat))" by blast
  with True show ?thesis by (simp only: if_True)
next
  case False
  from lower_char_other [OF False] False show ?thesis by (simp only: if_False)
qed

lemma join_space_concat:
  "join_space ps = drop 1 (concat (map (\<lambda>fragment. CHR '' '' # fragment) ps))"
  by (induction ps rule: join_space.induct) simp_all

lemma slide_text_of_spec: "slide_text_of sd = lowercased_concatenated_text (texts sd)"
  unfolding slide_text_of_def lowercased_concatenated_text_def lower_def join_space_concat
  by (rule map_cong [OF refl]) (rule lower_char_shift)

lemma description_example:
  "contradiction_description ''highly competitive'' ''few competitors'' ''market competition''
     = ''Contradictory market competition: 'highly competitive' vs 'few competitors'' @ [CHR 0x27]"
  by (simp add: contradiction_description_def)

text \<open>
  Claim C7. For each entry of the pattern table, the scan emits one finding for the pair
  when some slide's lowercased concatenated text contains the first phrase and some
  slide's contains the second, and none otherwise. The finding lists the slides with the
  first phrase followed by the slides with the second, a slide with both phrases twice;
  its severity is \<open>high\<close> and its type \<open>contradictory_statements\<close>. The finding of a pair
  is told by its description, which no other pair shares. The text of a slide and
  containment are those of the specification's words: the fragments joined by single
  spaces, the letters A to Z lowered, and a phrase contained when it is a contiguous
  part.
\<close>

theorem contradictory_statements_per_pattern:
  assumes "distinct (map fst slides_data)"
    and "(pattern1, pattern2, context_label) \<in> set contradiction_patterns"
  shows "filter (\<lambda>f. description f = Some (contradiction_description pattern1 pattern2 context_label))
           (detect_contradictory_statements slides_data) =
         (let with1 = map fst (filter (\<lambda>(slide_num, sd).
                          sublist pattern1 (lowercased_concatenated_text (texts sd))) slides_data);
              with2 = map fst (filter (\<lambda>(slide_num, sd).
                          sublist pattern2 (lowercased_concatenated_text (texts sd))) slides_data)
          in if with1 \<noteq> [] \<and> with2 \<noteq> []
             then [\<lparr>slide_numbers = Some (with1 @ with2),
                    description = Some (contradiction_description pattern1 pattern2 context_label),
                    severity = Some ''high'',
                    type = Some ''contradictory_statements''\<rparr>]
             else [])"
proof -
  let ?all_text = "map (\<lambda>(slide_num, sd). (slide_num, slide_text_of sd)) slides_data"
  let ?g = "\<lambda>(pattern1, pattern2, context_label).
        let with1 = map fst (filter (\<lambda>(slide_num, t). contains pattern1 t) ?all_text);
            with2 = map fst (filter (\<lambda>(slide_num, t). contains pattern2 t) ?all_text)
        in if with1 \<noteq> [] \<and> with2 \<noteq> []
           then [contradiction pattern1 pattern2 context_label (with1 @ with2)] else []"
  let ?D = "\<lambda>(pattern1, pattern2, context_label).
              Some (contradiction_description pattern1 pattern2 context_label)"
  have det: "detect_contradictory_statements slides_data = concat (map ?g contradiction_patterns)"
    by (simp add: detect_contradictory_statements_def collect_text_eq [OF assms(1)]
          check_patterns_acc)
  have d: "distinct (map ?D contradiction_patterns)"
    using descriptions_distinct by (simp add: distinct_map inj_on_def split_def)
  have g: "description f = ?D q" if "f \<in> set (?g q)" for q f
    using that by (cases q) (auto simp add: Let_def contradiction_def split: if_splits)
  have w: "map fst (filter (\<lambda>(slide_num, t). contains p t) ?all_text) =
           map fst (filter (\<lambda>(slide_num, sd).
              sublist p (lowercased_concatenated_text (texts sd))) slides_data)" for p
    by (induction slides_data) (auto simp add: contains_sublist slide_text_of_spec)
  have "filter (\<lambda>f. description f = ?D (pattern1, pattern2, context_label))
          (concat (map ?g contradiction_patterns)) = ?g (pattern1, pattern2, context_label)"
    using d assms(2) g by (rule filter_concat_distinct)
  then show ?thesis
    by (simp add: det w Let_def contradiction_def)
qed

theorem contradictory_statements_per_pattern_witness:
  "filter (\<lambda>f. description f =
             Some (contradiction_description ''highly competitive'' ''few competitors'' ''market competition''))
     (detect_contradictory_statements mixed_case_slides) =
   [\<lparr>slide_numbers = Some [2, 5],
     description = Some (contradiction_description ''highly competitive'' ''few competitors'' ''market competition''),
     severity = Some ''high'',
     type = Some ''contradictory_statements''\<rparr>]"
proof -
  have d: "distinct (map fst mixed_case_slides)"
    by (simp add: mixed_case_slides_def)
  have p: "(''highly competitive'', ''few competitors'', ''market competition'') \<in> set contradiction_patterns"
    by (simp add: contradiction_patterns_def)
  have w1: "map fst (filter (\<lambda>(slide_num, sd).
              sublist ''highly competitive'' (lowercased_concatenated_text (texts sd)))
              mixed_case_slides) = [2]"
    by code_simp
  have w2: "map fst (filter (\<lambda>(slide_num, sd).
              sublist ''few competitors'' (lowercased_concatenated_text (texts sd)))
              mixed_case_slides) = [5]"
    by code_simp
  from contradictory_statements_per_pattern [OF d p] show ?thesis
    by (simp only: w1 w2 Let_def) simp
qed

lemma mixed_case_example:
  "map (\<lambda>(slide_num, sd). (slide_num, slide_text_of sd)) mixed_case_slides =
     [(2, ''market overview we operate in a highly competitive market''),
      (4, ''team highly motivated''),
      (5, ''risks there are few competitors in this space'')]
   \<and> detect_contradictory_statements mixed_case_slides =
     [contradiction ''highly competitive'' ''few competitors'' ''market competition'' [2, 5]]"
  by code_simp

lemma competition_example:
  "detect_contradictory_statements competition_slides =
     [contradiction ''highly competitive'' ''few competitors'' ''market competition'' [2, 5]]"
  by code_simp

lemma unprofitable_example:
  "detect_contradictory_statements unprofitable_slides =
     [contradiction ''profitable'' ''unprofitable'' ''profitability'' [7, 7]]"
  by code_simp

subsection \<open>Percentages\<close>

lemma star_rests_split:
  "rest \<in> set (star_rests p s) \<Longrightarrow> \<exists>m. s = m @ rest \<and> list_all p m"
proof (induction s)
  case Nil
  then show ?case by simp
next
  case (Cons c cs)
  show ?case
  proof (cases "rest = c # cs")
    case True
    then show ?thesis by simp
  next
    case False
    with Cons.prems have pc: "p c" and "rest \<in> set (star_rests p cs)"
      by (auto split: if_splits)
    with Cons.IH obtain m where "cs = m @ rest" "list_all p m" by blast
    with pc have "c # cs = (c # m) @ rest \<and> list_all p (c # m)" by simp
    then show ?thesis by blast
  qed
qed

lemma plus_split:
  assumes "rest \<in> set (rmatch (PlusC p) s)"
  shows "\<exists>m. s = m @ rest \<and> m \<noteq> [] \<and> list_all p m"
proof (cases s)
  case Nil
  with assms show ?thesis by simp
next
  case (Cons c cs)
  with assms have pc: "p c" and "rest \<in> set (star_rests p cs)"
    by (auto split: if_splits)
  from star_rests_split [OF this(2)] obtain m where "cs = m @ rest" "list_all p m" by blast
  with pc Cons have "s = (c # m) @ rest \<and> c # m \<noteq> [] \<and> list_all p (c # m)" by simp
  then show ?thesis by blast
qed

lemma rmatch_suffix: "rest \<in> set (rmatch r s) \<Longrightarrow> \<exists>m. s = m @ rest"
proof (induction r arbitrary: s rest)
  case (Lit a)
  then show ?case by (cases s) (auto split: if_splits)
next
  case (Seq r1 r2)
  from Seq.prems obtain mid where "mid \<in> set (rmatch r1 s)" "rest \<in> set (rmatch r2 mid)"
    by auto
  with Seq.IH obtain m1 m2 where "s = m1 @ mid" "mid = m2 @ rest" by blast
  then have "s = (m1 @ m2) @ rest" by simp
  then show ?case by blast
next
  case (Opt r)
  from Opt.prems have "rest \<in> set (rmatch r s) \<or> rest = s" by auto
  with Opt.IH show ?case by auto
next
  case (StarC p)
  then show ?case using star_rests_split [of rest p s] by auto
next
  case (PlusC p)
  then show ?case using plus_split [of rest p s] by blast
qed

lemma seq_split:
  "rest \<in> set (rmatch (Seq r1 r2) s) \<Longrightarrow>
   \<exists>mid. mid \<in> set (rmatch r1 s) \<and> rest \<in> set (rmatch r2 mid)"
  by auto

lemma percentage_match_shape:
  assumes "rest \<in> set (rmatch percentage_pattern s)"
  shows "\<exists>ds fr ws. s = ds @ fr @ ws @ ''%'' @ rest \<and> ds \<noteq> [] \<and> list_all is_digit ds
           \<and> (fr = [] \<or> (\<exists>gs. fr = CHR ''.'' # gs \<and> gs \<noteq> [] \<and> list_all is_digit gs))
           \<and> list_all is_space ws"
proof -
  from assms obtain r1 where
    1: "r1 \<in> set (rmatch (PlusC is_digit) s)" and
    a: "rest \<in> set (rmatch (Seq (Opt (Seq (Lit CHR ''.'') (PlusC is_digit)))
                            (Seq (StarC is_space) (Lit CHR ''%''))) r1)"
    unfolding percentage_pattern_def by (blast dest: seq_split)
  from a obtain r2 where
    2: "r2 \<in> set (rmatch (Opt (Seq (Lit CHR ''.'') (PlusC is_digit))) r1)" and
    b: "rest \<in> set (rmatch (Seq (StarC is_space) (Lit CHR ''%'')) r2)"
    by (blast dest: seq_split)
  from b obtain r3 where
    3: "r3 \<in> set (rmatch (StarC is_space) r2)" and
    4: "rest \<in> set (rmatch (Lit CHR ''%'') r3)"
    by (blast dest: seq_split)
  from plus_split [OF 1] obtain ds where ds: "s = ds @ r1" "ds \<noteq> []" "list_all is_digit ds"
    by blast
  from 2 have "r2 = r1 \<or> r2 \<in> set (rmatch (Seq (Lit CHR ''.'') (PlusC is_digit)) r1)"
    by auto
  then have "r2 = r1 \<or> (\<exists>mid. mid \<in> set (rmatch (Lit CHR ''.'') r1)
                            \<and> r2 \<in> set (rmatch (PlusC is_digit) mid))"
    by (blast dest: seq_split)
  then have "r2 = r1 \<or> (\<exists>t. r1 = CHR ''.'' # t \<and> r2 \<in> set (rmatch (PlusC is_digit) t))"
    by (cases r1) (auto split: if_splits)
  then obtain fr where fr: "r1 = fr @ r2"
      "fr = [] \<or> (\<exists>gs. fr = CHR ''.'' # gs \<and> gs \<noteq> [] \<and> list_all is_digit gs)"
  proof
    assume "r2 = r1"
    then show ?thesis using that [of "[]"] by simp
  next
    assume "\<exists>t. r1 = CHR ''.'' # t \<and> r2 \<in> set (rmatch (PlusC is_digit) t)"
    then obtain t where t: "r1 = CHR ''.'' # t" "r2 \<in> set (rmatch (PlusC is_digit) t)" by blast
    from plus_split [OF t(2)] obtain gs where "t = gs @ r2" "gs \<noteq> []" "list_all is_digit gs"
      by blast
    with t(1) show ?thesis using that [of "CHR ''.'' # gs"] by simp
  qed
  from 3 star_rests_split [of r3 is_space r2] obtain ws where ws: "r2 = ws @ r3" "list_all is_space ws"
    by auto
  from 4 have "r3 = CHR ''%'' # rest" by (cases r3) (auto split: if_splits)
  with ds fr ws have "s = ds @ fr @ ws @ ''%'' @ rest" by simp
  with ds fr ws show ?thesis by blast
qed

lemma findall_from_match:
  "e \<in> set (findall_from r k s) \<Longrightarrow> \<exists>rest. rest \<in> set (rmatch r (e @ rest))"
proof (induction s arbitrary: k)
  case Nil
  then have e: "e = []" and "rmatch r [] \<noteq> []" by (auto split: if_splits)
  then obtain rest where rest: "rest \<in> set (rmatch r [])" by (cases "rmatch r []") auto
  with rmatch_suffix [OF rest] have "rest = []" by simp
  with rest e show ?case by auto
next
  case (Cons c cs)
  show ?case
  proof (cases "k > 0")
    case True
    with Cons.prems have "e \<in> set (findall_from r (k - 1) cs)" by simp
    then show ?thesis by (rule Cons.IH)
  next
    case False
    show ?thesis
    proof (cases "rmatch r (c # cs)")
      case Nil
      with False Cons.prems have "e \<in> set (findall_from r 0 cs)" by simp
      then show ?thesis by (rule Cons.IH)
    next
      case (Cons rest others)
      then have rest: "rest \<in> set (rmatch r (c # cs))" by simp
      from rmatch_suffix [OF rest] obtain m where m: "c # cs = m @ rest" by blast
      then have len: "length (c # cs) - length rest = length m"
        by (metis add_diff_cancel_right' length_append)
      from m have tk: "take (length m) (c # cs) = m" by simp
      from False Cons Cons.prems
      have "e = take (length (c # cs) - length rest) (c # cs)
            \<or> e \<in> set (findall_from r (length (c # cs) - length rest - 1) cs)"
        by (simp add: Let_def)
      then show ?thesis
      proof
        assume "e = take (length (c # cs) - length rest) (c # cs)"
        then have "e = m" by (simp only: len tk)
        with rest m show ?thesis by auto
      next
        assume "e \<in> set (findall_from r (length (c # cs) - length rest - 1) cs)"
        then show ?thesis by (rule Cons.IH)
      qed
    qed
  qed
qed

lemma digit_not_space: "is_digit c \<Longrightarrow> \<not> is_space c"
  by (auto simp add: is_digit_def is_space_def)

lemma dot_not_digit: "\<not> is_digit CHR ''.''"
  by (simp add: is_digit_def)

lemma is_number_digits:
  assumes "ds \<noteq> []" "list_all is_digit ds"
    and "fr = [] \<or> (\<exists>gs. fr = CHR ''.'' # gs \<and> gs \<noteq> [] \<and> list_all is_digit gs)"
  shows "is_number (ds @ fr)"
proof -
  from assms(2) have all: "\<forall>x \<in> set ds. is_digit x" by (simp add: list_all_iff)
  from assms(3) have fr: "fr = [] \<or> \<not> is_digit (hd fr)" using dot_not_digit by auto
  have tw: "takeWhile is_digit (ds @ fr) = ds"
    using all fr by (cases fr) (simp_all add: takeWhile_append2)
  have dw: "dropWhile is_digit (ds @ fr) = fr"
    using all fr by (cases fr) (simp_all add: dropWhile_append2)
  from assms(1,3) show ?thesis
    by (auto simp add: is_number_def Let_def tw dw)
qed

lemma strip_trailing_spaces:
  assumes "list_all is_space ws" and "xs \<noteq> []" and "\<not> is_space (last xs)"
  shows "rev (dropWhile is_space (rev (xs @ ws))) = xs"
proof -
  have "dropWhile is_space (rev ws @ rev xs) = dropWhile is_space (rev xs)"
    using assms(1) by (intro dropWhile_append2) (simp add: list_all_iff)
  moreover from assms(2,3) have "dropWhile is_space (rev xs) = rev xs"
    by (cases xs rule: rev_cases) simp_all
  ultimately show ?thesis by simp
qed

lemma shape_of_match:
  assumes "ds \<noteq> []" "list_all is_digit ds"
    and "fr = [] \<or> (\<exists>gs. fr = CHR ''.'' # gs \<and> gs \<noteq> [] \<and> list_all is_digit gs)"
    and "list_all is_space ws"
  shows "number_space_percent (ds @ fr @ ws @ ''%'')"
proof -
  have ne: "ds @ fr \<noteq> []" using assms(1) by simp
  have "is_digit (last (ds @ fr))"
    using assms(1,2,3) by (auto simp add: list_all_iff)
  then have ns: "\<not> is_space (last (ds @ fr))" by (rule digit_not_space)
  have "butlast (ds @ fr @ ws @ ''%'') = (ds @ fr) @ ws"
    by (simp add: butlast_append)
  then have "rev (dropWhile is_space (rev (butlast (ds @ fr @ ws @ ''%'')))) = ds @ fr"
    using strip_trailing_spaces [OF assms(4) ne ns] by simp
  with is_number_digits [OF assms(1,2,3)] show ?thesis
    by (simp add: number_space_percent_def)
qed

text \<open>
  Claim C9, as amended. For every text, every entry of the percentages is a number
  (an integer or a decimal) followed by any white space and then by \<^verbatim>\<open>%\<close>; every entry
  ends with \<^verbatim>\<open>%\<close>.
\<close>

theorem percentages_shape:
  "\<forall>e \<in> set (extract_percentages txt). number_space_percent e \<and> last e = CHR ''%''"
proof
  fix e assume "e \<in> set (extract_percentages txt)"
  then have "e \<in> set (findall_from percentage_pattern 0 txt)"
    by (auto simp add: extract_percentages_def findall_def split: if_splits)
  from findall_from_match [OF this] obtain rest
    where "rest \<in> set (rmatch percentage_pattern (e @ rest))" by blast
  from percentage_match_shape [OF this] obtain ds fr ws where
    s: "e @ rest = ds @ fr @ ws @ ''%'' @ rest" and
    d: "ds \<noteq> []" "list_all is_digit ds"
       "fr = [] \<or> (\<exists>gs. fr = CHR ''.'' # gs \<and> gs \<noteq> [] \<and> list_all is_digit gs)"
       "list_all is_space ws"
    by blast
  from s have "e @ rest = (ds @ fr @ ws @ ''%'') @ rest" by simp
  then have e: "e = ds @ fr @ ws @ ''%''" by (simp only: append_same_eq)
  from shape_of_match [OF d] e show "number_space_percent e \<and> last e = CHR ''%''"
    by (simp add: number_space_percent_def)
qed

theorem percentages_shape_witness:
  "extract_percentages ''Growth of 12.5% and 25 % share'' = [''12.5%'', ''25 %'']
   \<and> number_space_percent ''12.5%'' \<and> number_space_percent ''25 %''"
proof -
  have v: "extract_percentages ''Growth of 12.5% and 25 % share'' = [''12.5%'', ''25 %'']"
    by code_simp
  with percentages_shape [of "''Growth of 12.5% and 25 % share''"] show ?thesis by simp
qed

text \<open>
  The pattern lets white space stand between the number and the sign: the entry that
  the text \<^verbatim>\<open>25 %\<close> gives is no number immediately followed by \<^verbatim>\<open>%\<close>.
\<close>

theorem percentages_shape_counterexample:
  "extract_percentages ''25 %'' = [''25 %''] \<and> \<not> number_then_percent ''25 %''"
  by code_simp

subsection \<open>The numerical conflict scan\<close>

lemma dd_append_get:
  "get_list (dd_append d k v) m = get_list d m @ (if m = k then [v] else [])"
  by (induction d k v rule: dd_append.induct) (auto simp add: get_list_def)

lemma dd_append_keys: "fst ` set (dd_append d k v) = insert k (fst ` set d)"
  by (induction d k v rule: dd_append.induct) auto

lemma dd_append_well_formed: "well_formed d \<Longrightarrow> well_formed (dd_append d k v)"
proof (induction d k v rule: dd_append.induct)
  case (1 k v)
  show ?case by (simp add: well_formed_def)
next
  case (2 k' vs d k v)
  then show ?case by (auto simp add: well_formed_def dd_append_keys)
qed

lemma collect_values_get:
  "get_list (collect_values words t n d vs) m =
     get_list d m @ (if any_word_in words t then replicate (count_list vs m) n else [])"
proof (induction vs arbitrary: d)
  case Nil
  show ?case by simp
next
  case (Cons v vs)
  show ?case
    by (simp add: Cons.IH dd_append_get replicate_append_same [symmetric])
qed

lemma collect_values_well_formed:
  "well_formed d \<Longrightarrow> well_formed (collect_values words t n d vs)"
  by (induction vs arbitrary: d) (simp_all add: dd_append_well_formed)

lemma collect_slides_get:
  "(case collect_slides (r, p, q) slides_data of
      (r', p', q') \<Rightarrow>
        get_list r' m = get_list r m @ occurrences revenue_words currency slides_data m
      \<and> get_list p' m = get_list p m @ occurrences percentage_words percentages slides_data m
      \<and> get_list q' m = get_list q m @ occurrences quantity_words numbers slides_data m)"
proof (induction slides_data arbitrary: r p q)
  case Nil
  show ?case by (simp add: occurrences_def)
next
  case (Cons a slides_data)
  obtain n sd where a: "a = (n, sd)" by (cases a)
  show ?case
    using Cons.IH
      [of "collect_values revenue_words (slide_text_of sd) n r (currency sd)"
          "collect_values percentage_words (slide_text_of sd) n p (percentages sd)"
          "collect_values quantity_words (slide_text_of sd) n q (numbers sd)"]
    by (simp add: a Let_def collect_values_get occurrences_def split: prod.splits)
qed

lemma collect_slides_well_formed:
  "well_formed r \<Longrightarrow> well_formed p \<Longrightarrow> well_formed q \<Longrightarrow>
   (case collect_slides (r, p, q) slides_data of
      (r', p', q') \<Rightarrow> well_formed r' \<and> well_formed p' \<and> well_formed q')"
proof (induction slides_data arbitrary: r p q)
  case Nil
  then show ?case by simp
next
  case (Cons a slides_data)
  obtain n sd where a: "a = (n, sd)" by (cases a)
  show ?case
    using Cons.IH
      [OF collect_values_well_formed [OF Cons.prems(1)]
          collect_values_well_formed [OF Cons.prems(2)]
          collect_values_well_formed [OF Cons.prems(3)]]
    by (simp add: a Let_def)
qed

lemma emit_conflicts_acc:
  "emit_conflicts mk conflicts d =
     conflicts @ map (\<lambda>(metric, slide_nums). mk metric slide_nums)
                   (filter (\<lambda>(metric, slide_nums). length slide_nums > 1) d)"
  by (induction mk conflicts d rule: emit_conflicts.induct) simp_all

lemma well_formed_mem:
  assumes "well_formed d"
  shows "(m, ns) \<in> set d \<and> length ns > 1 \<longleftrightarrow> get_list d m = ns \<and> length ns > 1"
proof -
  from assms have d: "distinct (map fst d)" by (simp add: well_formed_def)
  show ?thesis
  proof (cases "map_of d m")
    case None
    then have "m \<notin> fst ` set d" by (simp add: map_of_eq_None_iff)
    then have "(m, ns) \<notin> set d" by force
    with None show ?thesis by (auto simp add: get_list_def)
  next
    case (Some ns')
    with d have "(m, ns) \<in> set d \<longleftrightarrow> ns = ns'"
      by (metis map_of_is_SomeI map_of_SomeD option.inject)
    with Some show ?thesis by (auto simp add: get_list_def)
  qed
qed

text \<open>
  What the scan emits: a conflict for a value, with the slide numbers collected for it,
  exactly when two or more slide numbers were collected, repetitions within one slide
  counted.
\<close>

lemma detect_numerical_conflicts_revenue:
  "revenue_conflict metric slide_nums \<in> set (detect_numerical_conflicts slides_data) \<longleftrightarrow>
     slide_nums = occurrences revenue_words currency slides_data metric \<and> length slide_nums > 1"
proof -
  obtain r p q where c: "collect_slides ([], [], []) slides_data = (r, p, q)"
    by (cases "collect_slides ([], [], []) slides_data")
  have wf0: "well_formed []" by (simp add: well_formed_def)
  from collect_slides_well_formed [OF wf0 wf0 wf0, where slides_data = slides_data] c
  have wf: "well_formed r" by simp
  from collect_slides_get [where r = "[]" and p = "[]" and q = "[]" and slides_data = slides_data and m = metric] c
  have g: "get_list r metric = occurrences revenue_words currency slides_data metric"
    by (simp add: get_list_def)
  have inj: "revenue_conflict metric slide_nums = revenue_conflict m' ns' \<longleftrightarrow>
             metric = m' \<and> slide_nums = ns'" for m' ns'
    by (auto simp add: revenue_conflict_def)
  have np: "revenue_conflict metric slide_nums \<noteq> percentage_conflict m' ns'" for m' ns'
    by (simp add: revenue_conflict_def percentage_conflict_def)
  have nq: "revenue_conflict metric slide_nums \<noteq> quantity_conflict m' ns'" for m' ns'
    by (simp add: revenue_conflict_def quantity_conflict_def)
  have "revenue_conflict metric slide_nums \<in> set (detect_numerical_conflicts slides_data) \<longleftrightarrow>
        (metric, slide_nums) \<in> set r \<and> length slide_nums > 1"
    by (auto simp add: detect_numerical_conflicts_def c emit_conflicts_acc inj np nq image_iff)
  also have "\<dots> \<longleftrightarrow> get_list r metric = slide_nums \<and> length slide_nums > 1"
    by (rule well_formed_mem [OF wf])
  finally show ?thesis using g by auto
qed

lemma detect_numerical_conflicts_percentage:
  "percentage_conflict metric slide_nums \<in> set (detect_numerical_conflicts slides_data) \<longleftrightarrow>
     slide_nums = occurrences percentage_words percentages slides_data metric \<and> length slide_nums > 1"
proof -
  obtain r p q where c: "collect_slides ([], [], []) slides_data = (r, p, q)"
    by (cases "collect_slides ([], [], []) slides_data")
  have wf0: "well_formed []" by (simp add: well_formed_def)
  from collect_slides_well_formed [OF wf0 wf0 wf0, where slides_data = slides_data] c
  have wf: "well_formed p" by simp
  from collect_slides_get [where r = "[]" and p = "[]" and q = "[]" and slides_data = slides_data and m = metric] c
  have g: "get_list p metric = occurrences percentage_words percentages slides_data metric"
    by (simp add: get_list_def)
  have inj: "percentage_conflict metric slide_nums = percentage_conflict m' ns' \<longleftrightarrow>
             metric = m' \<and> slide_nums = ns'" for m' ns'
    by (auto simp add: percentage_conflict_def)
  have np: "percentage_conflict metric slide_nums \<noteq> revenue_conflict m' ns'" for m' ns'
    by (simp add: revenue_conflict_def percentage_conflict_def quantity_conflict_def)
  have nq: "percentage_conflict metric slide_nums \<noteq> quantity_conflict m' ns'" for m' ns'
    by (simp add: revenue_conflict_def percentage_conflict_def quantity_conflict_def)
  have "percentage_conflict metric slide_nums \<in> set (detect_numerical_conflicts slides_data) \<longleftrightarrow>
        (metric, slide_nums) \<in> set p \<and> length slide_nums > 1"
    by (auto simp add: detect_numerical_conflicts_def c emit_conflicts_acc inj np nq image_iff)
  also have "\<dots> \<longleftrightarrow> get_list p metric = slide_nums \<and> length slide_nums > 1"
    by (rule well_formed_mem [OF wf])
  finally show ?thesis using g by auto
qed

lemma detect_numerical_conflicts_quantity:
  "quantity_conflict metric slide_nums \<in> set (detect_numerical_conflicts slides_data) \<longleftrightarrow>
     slide_nums = occurrences quantity_words numbers slides_data metric \<and> length slide_nums > 1"
proof -
  obtain r p q where c: "collect_slides ([], [], []) slides_data = (r, p, q)"
    by (cases "collect_slides ([], [], []) slides_data")
  have wf0: "well_formed []" by (simp add: well_formed_def)
  from collect_slides_well_formed [OF wf0 wf0 wf0, where slides_data = slides_data] c
  have wf: "well_formed q" by simp
  from collect_slides_get [where r = "[]" and p = "[]" and q = "[]" and slides_data = slides_data and m = metric] c
  have g: "get_list q metric = occurrences quantity_words numbers slides_data metric"
    by (simp add: get_list_def)
  have inj: "quantity_conflict metric slide_nums = quantity_conflict m' ns' \<longleftrightarrow>
             metric = m' \<and> slide_nums = ns'" for m' ns'
    by (auto simp add: quantity_conflict_def)
  have np: "quantity_conflict metric slide_nums \<noteq> revenue_conflict m' ns'" for m' ns'
    by (simp add: revenue_conflict_def percentage_conflict_def quantity_conflict_def)
  have nq: "quantity_conflict metric slide_nums \<noteq> percentage_conflict m' ns'" for m' ns'
    by (simp add: revenue_conflict_def percentage_conflict_def quantity_conflict_def)
  have "quantity_conflict metric slide_nums \<in> set (detect_numerical_conflicts slides_data) \<longleftrightarrow>
        (metric, slide_nums) \<in> set q \<and> length slide_nums > 1"
    by (auto simp add: detect_numerical_conflicts_def c emit_conflicts_acc inj np nq image_iff)
  also have "\<dots> \<longleftrightarrow> get_list q metric = slide_nums \<and> length slide_nums > 1"
    by (rule well_formed_mem [OF wf])
  finally show ?thesis using g by auto
qed

lemma conflict_severities:
  "severity (revenue_conflict metric slide_nums) = Some ''high''"
  "severity (percentage_conflict metric slide_nums) = Some ''high''"
  "severity (quantity_conflict metric slide_nums) = Some ''medium''"
  by (simp_all add: revenue_conflict_def percentage_conflict_def quantity_conflict_def)

text \<open>
  The example of the specification: the same amount on slides 1 and 3, both naming
  revenue, gives one finding, a revenue conflict for the slides \<open>[1, 3]\<close>.
\<close>

lemma revenue_example:
  "detect_numerical_conflicts revenue_slides =
     [\<lparr>slide_numbers = Some [1, 3],
       description = Some ''Conflicting revenue figures: $500,000 appears on multiple slides'',
       severity = Some ''high'',
       type = Some ''revenue_conflict''\<rparr>]"
  by code_simp

text \<open>
  Claim C1, where the code departs from it. A value that stands twice in the text of a
  single slide is reported as a conflict, with that slide listed twice and a description
  that speaks of multiple slides, though the value appears on one slide only.
\<close>

theorem numerical_conflict_on_one_slide:
  "detect_numerical_conflicts [(1, repeated_slide)] =
     [\<lparr>slide_numbers = Some [1, 1],
       description = Some ''Conflicting revenue figures: $500 appears on multiple slides'',
       severity = Some ''high'',
       type = Some ''revenue_conflict''\<rparr>]"
  by code_simp

end
